theory Spec2Isabelle
  imports Complex_Main "HOL-Library.Multiset"
begin

section \<open>Run-time model: panics, float64 backing arrays, the random source\<close>

text \<open>
  The Go program panics on a wrong-length brain input, on an index or slice bound out of
  range and on \<^verbatim>\<open>rand.Intn(n)\<close> with \<open>n \<le> 0\<close>. Every such abort is a value of
  \<open>error\<close>; a function that can abort returns \<open>error + 'a\<close>. The two unbounded
  loops of the program are partial functions into \<open>option\<close>; where their result is
  used, \<open>None\<close> (the loop does not return) becomes \<open>Diverges\<close>.

  A \<^verbatim>\<open>float64\<close> is modelled as a \<open>real\<close>: rounding, infinities and NaN are not
  modelled. A \<^verbatim>\<open>[]float64\<close> that holds brain weights is shared between a brain, its
  perceptrons and hall-of-fame entries, so these slices are modelled as views
  (backing array, offset, length, capacity) into a heap of backing arrays.
\<close>

datatype error = InputLengthPanic | IndexPanic | SlicePanic | IntnPanic | Diverges

definition rbind :: "error + 'a \<Rightarrow> ('a \<Rightarrow> error + 'b) \<Rightarrow> error + 'b" where
  "rbind m f = (case m of Inl e \<Rightarrow> Inl e | Inr v \<Rightarrow> f v)"

text \<open>\<^verbatim>\<open>for i := range ...\<close> and counted loops over a fixed range, in the error monad.\<close>

primrec forM :: "nat list \<Rightarrow> (nat \<Rightarrow> 's \<Rightarrow> error + 's) \<Rightarrow> 's \<Rightarrow> error + 's" where
  "forM [] body s = Inr s"
| "forM (i # ns) body s = rbind (body i s) (forM ns body)"

text \<open>\<^verbatim>\<open>for ; i < n; i++ { body }\<close> on a counter that outlives the loop: the final counter
  is returned with the state.\<close>

function for_loop ::
  "int \<Rightarrow> int \<Rightarrow> (int \<Rightarrow> 's \<Rightarrow> error + 's) \<Rightarrow> 's \<Rightarrow> error + (int \<times> 's)" where
  "for_loop i n body s =
     (if i < n
      then (case body i s of Inl e \<Rightarrow> Inl e | Inr s' \<Rightarrow> for_loop (i + 1) n body s')
      else Inr (i, s))"
  by pat_completeness auto
termination
  by (relation "measure (\<lambda>(i, n, body, s). nat (n - i))") auto

declare for_loop.simps [simp del]

text \<open>Indexing a Go slice held by value: out of range panics.\<close>

definition idx :: "'a list \<Rightarrow> nat \<Rightarrow> error + 'a" where
  "idx xs i = (if i < length xs then Inr (xs ! i) else Inl IndexPanic)"

definition upd :: "'a list \<Rightarrow> nat \<Rightarrow> 'a \<Rightarrow> error + 'a list" where
  "upd xs i v = (if i < length xs then Inr (xs[i := v]) else Inl IndexPanic)"

record fslice =
  arr :: nat
  off :: nat
  len :: nat
  cap :: nat

type_synonym heap = "nat \<Rightarrow> real list"

definition slice_get :: "heap \<Rightarrow> fslice \<Rightarrow> nat \<Rightarrow> error + real" where
  "slice_get h s k = (if k < len s then Inr (h (arr s) ! (off s + k)) else Inl IndexPanic)"

definition slice_set :: "heap \<Rightarrow> fslice \<Rightarrow> nat \<Rightarrow> real \<Rightarrow> error + heap" where
  "slice_set h s k v =
     (if k < len s then Inr (h(arr s := (h (arr s))[off s + k := v])) else Inl IndexPanic)"

text \<open>\<^verbatim>\<open>s[lo:hi]\<close>: panics unless \<open>lo \<le> hi \<le> cap(s)\<close>.\<close>

definition reslice :: "fslice \<Rightarrow> nat \<Rightarrow> nat \<Rightarrow> error + fslice" where
  "reslice s lo hi =
     (if lo \<le> hi \<and> hi \<le> cap s
      then Inr \<lparr>arr = arr s, off = off s + lo, len = hi - lo, cap = cap s - lo\<rparr>
      else Inl SlicePanic)"

text \<open>The values a slice shows.\<close>

definition slice_list :: "heap \<Rightarrow> fslice \<Rightarrow> real list" where
  "slice_list h s = take (len s) (drop (off s) (h (arr s)))"

text \<open>
  The process state outside \<^verbatim>\<open>Sim\<close>: the heap with its next free address, and the
  shared random source of \<^verbatim>\<open>math/rand\<close>, modelled as the sequence of its results
  (\<open>rfloat\<close> for \<^verbatim>\<open>rand.Float64()\<close>, \<open>rint\<close> reduced modulo \<open>n\<close> for
  \<^verbatim>\<open>rand.Intn(n)\<close>) and the number of draws made so far.
\<close>

record Env =
  heap :: heap
  hnext :: nat
  rfloat :: "nat \<Rightarrow> real"
  rint :: "nat \<Rightarrow> nat"
  rpos :: nat

definition Float64 :: "Env \<Rightarrow> real \<times> Env" where
  "Float64 e = (rfloat e (rpos e), e\<lparr>rpos := rpos e + 1\<rparr>)"

definition Intn :: "int \<Rightarrow> Env \<Rightarrow> error + (int \<times> Env)" where
  "Intn n e =
     (if n \<le> 0 then Inl IntnPanic
      else Inr (int (rint e (rpos e)) mod n, e\<lparr>rpos := rpos e + 1\<rparr>))"

text \<open>\<^verbatim>\<open>make([]float64, n)\<close>: a fresh zeroed backing array.\<close>

definition make_f64 :: "nat \<Rightarrow> Env \<Rightarrow> fslice \<times> Env" where
  "make_f64 n e =
     (\<lparr>arr = hnext e, off = 0, len = n, cap = n\<rparr>,
      e\<lparr>heap := (heap e)(hnext e := replicate n 0), hnext := hnext e + 1\<rparr>)"

section \<open>brain.go\<close>

definition numBrainInputs :: nat where "numBrainInputs = 12"
definition memorySize :: nat where "memorySize = 12"

record Perceptron =
  p_weights :: fslice

definition NewPerceptron :: "fslice \<Rightarrow> Perceptron" where
  "NewPerceptron ws = \<lparr>p_weights = ws\<rparr>"

text \<open>The zero value of \<^verbatim>\<open>Perceptron\<close>: a nil slice.\<close>

definition nil_slice :: fslice where
  "nil_slice = \<lparr>arr = 0, off = 0, len = 0, cap = 0\<rparr>"

primrec TanhActivation_sum ::
  "heap \<Rightarrow> Perceptron \<Rightarrow> real list \<Rightarrow> nat list \<Rightarrow> real \<Rightarrow> error + real" where
  "TanhActivation_sum h p inputs [] acc = Inr acc"
| "TanhActivation_sum h p inputs (k # ks) acc =
     rbind (slice_get h (p_weights p) k)
       (\<lambda>w. TanhActivation_sum h p inputs ks (acc + w * (inputs ! k)))"

definition TanhActivation :: "heap \<Rightarrow> Perceptron \<Rightarrow> real list \<Rightarrow> error + real" where
  "TanhActivation h p inputs =
     rbind (TanhActivation_sum h p inputs [0..<length inputs] 0) (\<lambda>acc. Inr (tanh acc))"

text \<open>
  The fields \<^verbatim>\<open>x\<close>, \<^verbatim>\<open>inOutput\<close> and \<^verbatim>\<open>output\<close> are private to one brain and held by
  value; \<^verbatim>\<open>allWeights\<close> and the perceptrons' weights are views into the heap. The fields
  \<^verbatim>\<open>x\<close> and \<^verbatim>\<open>output\<close> are named \<open>b_x\<close> and \<open>b_output\<close>.
\<close>

record Brain =
  inLayer :: "Perceptron list"
  outLayer :: "Perceptron list"
  b_output :: "real list"
  b_x :: "real list"
  inOutput :: "real list"
  allWeights :: fslice

definition inWeightLen :: nat where
  "inWeightLen = numBrainInputs + memorySize + 1"

text \<open>The struct literal shared by both constructors, with \<^verbatim>\<open>x[0]\<close> and \<^verbatim>\<open>inOutput[0]\<close> set.\<close>

definition blank_brain :: "fslice \<Rightarrow> error + Brain" where
  "blank_brain ws =
     (let b = \<lparr>inLayer = replicate (numBrainInputs + memorySize) (NewPerceptron nil_slice),
               outLayer = replicate (memorySize + 2) (NewPerceptron nil_slice),
               b_output = replicate (memorySize + 2) 0,
               b_x = replicate (numBrainInputs + memorySize + 1) 0,
               inOutput = replicate (numBrainInputs + memorySize + 1) 0,
               allWeights = ws\<rparr>
      in rbind (upd (b_x b) 0 1) (\<lambda>xs.
         rbind (upd (inOutput b) 0 1) (\<lambda>ys.
         Inr (b\<lparr>b_x := xs, inOutput := ys\<rparr>))))"

text \<open>The two loops that bind every perceptron to its block of \<^verbatim>\<open>allWeights\<close>.\<close>

definition bind_inLayer :: "Brain \<Rightarrow> error + Brain" where
  "bind_inLayer b =
     forM [0..<length (inLayer b)]
       (\<lambda>i b. let offset = i * inWeightLen in
          rbind (reslice (allWeights b) offset (offset + inWeightLen)) (\<lambda>ws.
          rbind (upd (inLayer b) i (NewPerceptron ws)) (\<lambda>ps.
          Inr (b\<lparr>inLayer := ps\<rparr>)))) b"

definition bind_outLayer :: "Brain \<Rightarrow> error + Brain" where
  "bind_outLayer b =
     (let inLayerLen = length (inLayer b); outWeightLen = inLayerLen + 1 in
      forM [0..<length (outLayer b)]
        (\<lambda>i b. let offset = inLayerLen * inWeightLen + outWeightLen * i in
           rbind (reslice (allWeights b) offset (offset + outWeightLen)) (\<lambda>ws.
           rbind (upd (outLayer b) i (NewPerceptron ws)) (\<lambda>ps.
           Inr (b\<lparr>outLayer := ps\<rparr>)))) b)"

definition zero_output :: "Brain \<Rightarrow> error + Brain" where
  "zero_output b =
     forM [0..<length (b_output b)]
       (\<lambda>i b. rbind (upd (b_output b) i 0) (\<lambda>os. Inr (b\<lparr>b_output := os\<rparr>))) b"

definition NewBrainFromWeights :: "fslice \<Rightarrow> error + Brain" where
  "NewBrainFromWeights ws =
     rbind (blank_brain ws) (\<lambda>b.
     rbind (bind_inLayer b) (\<lambda>b.
     rbind (bind_outLayer b) (\<lambda>b.
     zero_output b)))"

text \<open>\<^verbatim>\<open>b.allWeights[offset+j] = rand.Float64()*2 - 1\<close> for \<open>j\<close> in a block.\<close>

definition randomize_block :: "fslice \<Rightarrow> nat \<Rightarrow> nat \<Rightarrow> Env \<Rightarrow> error + Env" where
  "randomize_block ws offset n e =
     forM [0..<n]
       (\<lambda>j e. case Float64 e of (r, e) \<Rightarrow>
          rbind (slice_set (heap e) ws (offset + j) (r * 2 - 1)) (\<lambda>h.
          Inr (e\<lparr>heap := h\<rparr>))) e"

text \<open>The two initialisation loops of \<^verbatim>\<open>NewRandomBrain\<close>: randomise a block, then bind
  the perceptron to it.\<close>

definition init_inLayer :: "Brain \<Rightarrow> Env \<Rightarrow> error + (Brain \<times> Env)" where
  "init_inLayer b e =
     forM [0..<length (inLayer b)]
       (\<lambda>i (b, e). let offset = i * inWeightLen in
          rbind (randomize_block (allWeights b) offset inWeightLen e) (\<lambda>e.
          rbind (reslice (allWeights b) offset (offset + inWeightLen)) (\<lambda>ws.
          rbind (upd (inLayer b) i (NewPerceptron ws)) (\<lambda>ps.
          Inr (b\<lparr>inLayer := ps\<rparr>, e))))) (b, e)"

definition init_outLayer :: "nat \<Rightarrow> Brain \<Rightarrow> Env \<Rightarrow> error + (Brain \<times> Env)" where
  "init_outLayer outWeightLen b e =
     forM [0..<length (outLayer b)]
       (\<lambda>i (b, e).
          let offset = length (inLayer b) * inWeightLen + outWeightLen * i in
          rbind (randomize_block (allWeights b) offset outWeightLen e) (\<lambda>e.
          rbind (reslice (allWeights b) offset (offset + outWeightLen)) (\<lambda>ws.
          rbind (upd (outLayer b) i (NewPerceptron ws)) (\<lambda>ps.
          Inr (b\<lparr>outLayer := ps\<rparr>, e))))) (b, e)"

definition NewRandomBrain :: "Env \<Rightarrow> error + (Brain \<times> Env)" where
  "NewRandomBrain e =
     rbind (blank_brain nil_slice) (\<lambda>b.
     let outWeightLen = length (inLayer b) + 1;
         l = length (inLayer b) * inWeightLen + length (outLayer b) * outWeightLen
     in case make_f64 l e of (ws, e) \<Rightarrow>
     rbind (init_inLayer (b\<lparr>allWeights := ws\<rparr>) e) (\<lambda>(b, e).
     rbind (init_outLayer outWeightLen b e) (\<lambda>(b, e).
     rbind (zero_output b) (\<lambda>b. Inr (b, e)))))"

text \<open>
  \<^verbatim>\<open>Step\<close>, loop by loop. The first loop copies the sensor inputs to \<^verbatim>\<open>x[j+1]\<close> and
  leaves \<open>j = len(input)\<close>; then \<^verbatim>\<open>j -= 2\<close> (the length check has fixed
  \<open>len(input) = 12\<close>, so the subtraction stays within the naturals) and the second loop
  copies \<^verbatim>\<open>output[i]\<close> to \<^verbatim>\<open>x[j+i]\<close> for \<open>i \<ge> 2\<close>.
\<close>

definition Step_load_input :: "Brain \<Rightarrow> real list \<Rightarrow> error + Brain" where
  "Step_load_input b input =
     forM [0..<length input]
       (\<lambda>j b. rbind (idx input j) (\<lambda>v.
               rbind (upd (b_x b) (j + 1) v) (\<lambda>xs.
               Inr (b\<lparr>b_x := xs\<rparr>)))) b"

definition Step_load_memory :: "nat \<Rightarrow> Brain \<Rightarrow> error + Brain" where
  "Step_load_memory j b =
     forM [2..<length (b_output b)]
       (\<lambda>i b. rbind (idx (b_output b) i) (\<lambda>v.
               rbind (upd (b_x b) (j + i) v) (\<lambda>xs.
               Inr (b\<lparr>b_x := xs\<rparr>)))) b"

definition Step_inLayer :: "heap \<Rightarrow> Brain \<Rightarrow> error + Brain" where
  "Step_inLayer h b =
     forM [0..<length (inLayer b)]
       (\<lambda>i b. rbind (idx (inLayer b) i) (\<lambda>p.
               rbind (TanhActivation h p (b_x b)) (\<lambda>v.
               rbind (upd (inOutput b) (i + 1) v) (\<lambda>ys.
               Inr (b\<lparr>inOutput := ys\<rparr>))))) b"

definition Step_outLayer :: "heap \<Rightarrow> Brain \<Rightarrow> error + Brain" where
  "Step_outLayer h b =
     forM [0..<length (outLayer b)]
       (\<lambda>i b. rbind (idx (outLayer b) i) (\<lambda>p.
               rbind (TanhActivation h p (inOutput b)) (\<lambda>v.
               rbind (upd (b_output b) i v) (\<lambda>os.
               Inr (b\<lparr>b_output := os\<rparr>))))) b"

definition Step :: "heap \<Rightarrow> Brain \<Rightarrow> real list \<Rightarrow> error + ((real \<times> real) \<times> Brain)" where
  "Step h b input =
     (if length input \<noteq> numBrainInputs then Inl InputLengthPanic
      else
        rbind (Step_load_input b input) (\<lambda>b.
        rbind (Step_load_memory (length input - 2) b) (\<lambda>b.
        rbind (Step_inLayer h b) (\<lambda>b.
        rbind (Step_outLayer h b) (\<lambda>b.
        rbind (idx (b_output b) 0) (\<lambda>turn.
        rbind (idx (b_output b) 1) (\<lambda>move.
        Inr ((turn, move), b))))))))"

definition GetWeights :: "Brain \<Rightarrow> fslice" where
  "GetWeights b = allWeights b"

definition SetWeights :: "Brain \<Rightarrow> fslice \<Rightarrow> error + Brain" where
  "SetWeights b ws =
     rbind (bind_inLayer (b\<lparr>allWeights := ws\<rparr>)) (\<lambda>b.
     bind_outLayer b)"

definition RandomizeWeights :: "Brain \<Rightarrow> Env \<Rightarrow> error + Env" where
  "RandomizeWeights b e = randomize_block (allWeights b) 0 (len (allWeights b)) e"

text \<open>
  \<^verbatim>\<open>GetColor\<close>: the three channel values \<^verbatim>\<open>0xB3 * avg\<close> as reals, in the order red,
  green, blue of the struct literal. The narrowing \<^verbatim>\<open>uint8(...)\<close> is left out: Go leaves
  it implementation-dependent outside 0..255. A division by zero yields 0 in HOL and an
  infinity in Go; it needs fewer than three weights or an average of exactly -1/4.
\<close>

definition GetColor :: "heap \<Rightarrow> Brain \<Rightarrow> error + (real \<times> real \<times> real)" where
  "GetColor h b =
     (let lenAllWeights = len (allWeights b);
          lenAllWeights_div_3 = lenAllWeights div 3;
          lenAllWeights_div_3f = real lenAllWeights_div_3
      in rbind (forM [0..<lenAllWeights]
                  (\<lambda>i (redAvg, greenAvg, blueAvg).
                     rbind (slice_get h (allWeights b) i) (\<lambda>w.
                     if i < lenAllWeights_div_3
                     then Inr (redAvg + w / lenAllWeights_div_3f, greenAvg, blueAvg)
                     else if i < lenAllWeights_div_3 * 2
                     then Inr (redAvg, greenAvg, blueAvg + w / lenAllWeights_div_3f)
                     else Inr (redAvg, greenAvg + w / lenAllWeights_div_3f, blueAvg)))
                  (0, 0, 0))
           (\<lambda>(redAvg, greenAvg, blueAvg).
              let redAvg = 1 / ((redAvg * 2) + 0.5);
                  greenAvg = 1 / ((greenAvg * 2) + 0.5);
                  blueAvg = 1 / ((blueAvg * 2) + 0.5)
              in Inr (179 * redAvg, 179 * greenAvg, 179 * blueAvg)))"

section \<open>The weight layout of a live brain\<close>

text \<open>
  Both constructors and \<^verbatim>\<open>SetWeights\<close> bind perceptron \<open>i\<close> of the input layer to
  \<^verbatim>\<open>allWeights[i*25 : i*25+25]\<close> and perceptron \<open>i\<close> of the output layer to
  \<^verbatim>\<open>allWeights[600+25*i : 600+25*i+25]\<close>, and allocate \<^verbatim>\<open>x\<close>, \<^verbatim>\<open>inOutput\<close> and
  \<^verbatim>\<open>output\<close> with fixed lengths. \<open>brain_ok\<close> states this layout; the lemmas
  \<open>NewBrainFromWeights_ok\<close>, \<open>NewRandomBrain_ok\<close>, \<open>SetWeights_ok\<close> and \<open>Step_ok\<close>
  show that every brain the program builds has it and keeps it.
\<close>


definition view :: "fslice \<Rightarrow> nat \<Rightarrow> nat \<Rightarrow> fslice" where
  "view s lo n = \<lparr>arr = arr s, off = off s + lo, len = n, cap = cap s - lo\<rparr>"

definition in_block :: "fslice \<Rightarrow> nat \<Rightarrow> Perceptron" where
  "in_block ws i = NewPerceptron (view ws (i * inWeightLen) inWeightLen)"

definition out_block :: "fslice \<Rightarrow> nat \<Rightarrow> Perceptron" where
  "out_block ws i =
     NewPerceptron (view ws ((numBrainInputs + memorySize) * inWeightLen
                              + (numBrainInputs + memorySize + 1) * i)
                            (numBrainInputs + memorySize + 1))"

definition numWeights :: nat where
  "numWeights = (numBrainInputs + memorySize) * inWeightLen
                + (memorySize + 2) * (numBrainInputs + memorySize + 1)"

definition brain_ok :: "Brain \<Rightarrow> bool" where
  "brain_ok b \<longleftrightarrow>
     length (b_output b) = memorySize + 2 \<and>
     length (b_x b) = numBrainInputs + memorySize + 1 \<and>
     length (inOutput b) = numBrainInputs + memorySize + 1 \<and>
     numWeights \<le> cap (allWeights b) \<and>
     inLayer b = map (in_block (allWeights b)) [0..<numBrainInputs + memorySize] \<and>
     outLayer b = map (out_block (allWeights b)) [0..<memorySize + 2]"

text \<open>The vector \<^verbatim>\<open>b.x\<close> that the first two loops of \<^verbatim>\<open>Step\<close> leave for the input layer (lemma \<open>Step_loads\<close>).\<close>

definition Step_x :: "Brain \<Rightarrow> real list \<Rightarrow> real list" where
  "Step_x b input =
     take 1 (b_x b) @ take 11 input @ drop 2 (b_output b) @ drop 24 (b_x b)"

text \<open>The brain \<^verbatim>\<open>NewBrainFromWeights(ws)\<close> returns when \<open>ws\<close> is long enough (lemma \<open>NewBrainFromWeights_eq\<close>).\<close>

definition new_brain :: "fslice \<Rightarrow> Brain" where
  "new_brain ws =
     \<lparr>inLayer = map (in_block ws) [0..<numBrainInputs + memorySize],
      outLayer = map (out_block ws) [0..<memorySize + 2],
      b_output = replicate (memorySize + 2) 0,
      b_x = 1 # replicate (numBrainInputs + memorySize) 0,
      inOutput = 1 # replicate (numBrainInputs + memorySize) 0,
      allWeights = ws\<rparr>"

text \<open>
  Concrete inputs for the closed instances: backing array \<open>a\<close> holds 950 weights, all equal
  to \<open>a\<close>, and \<open>example_slice a\<close> is the whole of it.
\<close>

definition example_slice :: "nat \<Rightarrow> fslice" where
  "example_slice a = \<lparr>arr = a, off = 0, len = 950, cap = 950\<rparr>"

definition example_weights :: fslice where
  "example_weights = example_slice 0"

definition example_heap :: heap where
  "example_heap = (\<lambda>a. replicate 950 (real a))"

section \<open>sim.go: data\<close>

text \<open>
  Go's integer division and remainder truncate toward zero; \<^verbatim>\<open>int(f)\<close> on a
  \<^verbatim>\<open>float64\<close> discards the fraction (values outside the range of \<^verbatim>\<open>int\<close> are not
  modelled).
\<close>

definition go_div :: "int \<Rightarrow> int \<Rightarrow> int" where
  "go_div a b = sgn a * sgn b * (\<bar>a\<bar> div \<bar>b\<bar>)"

definition go_mod :: "int \<Rightarrow> int \<Rightarrow> int" where
  "go_mod a b = a - b * go_div a b"

definition go_int :: "real \<Rightarrow> int" where
  "go_int f = (if 0 \<le> f then \<lfloor>f\<rfloor> else \<lceil>f\<rceil>)"

definition MaxFloat64 :: real where
  "MaxFloat64 = (2 ^ 53 - 1) * 2 ^ 971"

definition MaxInt64 :: int where
  "MaxInt64 = 2 ^ 63 - 1"

definition creatureRadius :: int where "creatureRadius = 6"
definition creatureRadiusf :: real where "creatureRadiusf = real_of_int creatureRadius"
definition obstacleWidth :: real where "obstacleWidth = 3"
definition minCreatures :: int where "minCreatures = 10"
definition numObstacles :: int where "numObstacles = 6"
definition maxCreatures :: int where "maxCreatures = 2 * minCreatures"
definition maxBestCreatures :: int where "maxBestCreatures = maxCreatures * 2"
definition evolutionCycleTicks :: int where "evolutionCycleTicks = 30 * 5"

text \<open>
  Fields whose Go names clash between structs or with Isabelle names carry a prefix:
  \<open>c_x\<close>, \<open>c_y\<close>, \<open>c_angle\<close> of \<^verbatim>\<open>Creature\<close>; \<open>o_x\<close>, \<open>o_y\<close>, \<open>o_angle\<close>,
  \<open>o_length\<close> of \<^verbatim>\<open>Obstacle\<close>; \<open>t_score\<close>, \<open>t_weights\<close> of \<^verbatim>\<open>TopCreature\<close>.
  \<^verbatim>\<open>score\<close> is an \<^verbatim>\<open>int64\<close>, modelled as an \<open>int\<close>: the only arithmetic on it is the
  increment guarded by \<^verbatim>\<open>score < math.MaxInt64\<close>. A creature is held by pointer in
  exactly one of \<^verbatim>\<open>creatures\<close> and \<^verbatim>\<open>creaturePool\<close>, and owns its brain, so creatures
  are held by value; the weights of its brain stay a view into the heap.
\<close>

record Creature =
  c_x :: real
  c_y :: real
  c_angle :: real
  score :: int
  color :: "real \<times> real \<times> real"
  brain :: Brain

record Obstacle =
  o_x :: real
  o_y :: real
  o_angle :: real
  dx :: real
  dy :: real
  o_length :: real

record TopCreature =
  t_score :: int
  t_weights :: fslice

text \<open>
  \<^verbatim>\<open>Sim\<close>. \<^verbatim>\<open>CurrentFrame\<close> is read only through \<^verbatim>\<open>At(x, y) != BGColor\<close>, so the frame
  is the predicate \<open>frame s x y\<close>: pixel \<open>(x, y)\<close> is not of the background colour
  (outside the image \<^verbatim>\<open>At\<close> returns the zero colour, which is not the background). The
  draw2d context \<^verbatim>\<open>gc\<close> is not a field: what it draws is a parameter of \<open>DoTick\<close>. The
  process state \<open>env\<close> (heap and random source) is threaded through \<open>Sim\<close>.
\<close>

record Sim =
  width :: int
  height :: int
  borderWidth :: int
  creatures :: "Creature list"
  creaturePool :: "Creature list"
  obstacles :: "Obstacle list"
  bestCreatures :: "TopCreature list"
  frame :: "int \<Rightarrow> int \<Rightarrow> bool"
  frameWidthf :: real
  frameHeightf :: real
  borderWidthf :: real
  brainInputs :: "real list"
  tickCounter :: int
  env :: Env

definition NewSim :: "int \<Rightarrow> int \<Rightarrow> int \<Rightarrow> Env \<Rightarrow> Sim" where
  "NewSim w h bw e =
     \<lparr>width = w, height = h, borderWidth = bw,
      creatures = [], creaturePool = [], obstacles = [], bestCreatures = [],
      frame = (\<lambda>x y. True),
      frameWidthf = real_of_int (w + bw * 2),
      frameHeightf = real_of_int (h + bw * 2),
      borderWidthf = real_of_int bw,
      brainInputs = replicate numBrainInputs 0,
      tickCounter = 0,
      env = e\<rparr>"

section \<open>sim.go: the hall of fame\<close>

definition slice_nth :: "heap \<Rightarrow> fslice \<Rightarrow> nat \<Rightarrow> real" where
  "slice_nth h s i = h (arr s) ! (off s + i)"

definition WeightsEqual :: "heap \<Rightarrow> TopCreature \<Rightarrow> fslice \<Rightarrow> bool" where
  "WeightsEqual h t ws =
     (if len (t_weights t) \<noteq> len ws then False
      else list_all (\<lambda>i. slice_nth h (t_weights t) i = slice_nth h ws i)
             [0..<len (t_weights t)])"

fun IndexOfWeights_from :: "heap \<Rightarrow> TopCreature list \<Rightarrow> fslice \<Rightarrow> int \<Rightarrow> int" where
  "IndexOfWeights_from h [] ws i = - 1"
| "IndexOfWeights_from h (t # ts) ws i =
     (if WeightsEqual h t ws then i else IndexOfWeights_from h ts ws (i + 1))"

definition IndexOfWeights :: "heap \<Rightarrow> TopCreature list \<Rightarrow> fslice \<Rightarrow> int" where
  "IndexOfWeights h best ws = IndexOfWeights_from h best ws 0"

text \<open>
  The hall-of-fame update that \<^verbatim>\<open>DoTick\<close> writes out twice (for a dead creature and for
  every creature alive after the action pass): the entry appended holds the slice that
  \<^verbatim>\<open>GetWeights\<close> returns, not a copy.
\<close>

definition fold_best :: "heap \<Rightarrow> TopCreature list \<Rightarrow> fslice \<Rightarrow> int \<Rightarrow> TopCreature list" where
  "fold_best h best weights sc =
     (let index = IndexOfWeights h best weights in
      if index = - 1 then best @ [\<lparr>t_score = sc, t_weights = weights\<rparr>]
      else if t_score (best ! nat index) < sc
           then best[nat index := (best ! nat index)\<lparr>t_score := sc\<rparr>]
           else best)"

text \<open>
  \<^verbatim>\<open>sort.Sort(sort.Reverse(s.bestCreatures))\<close>: descending by score. Go's sort is not
  stable and leaves the order of equal scores to its implementation; the model keeps
  equal scores in their order.
\<close>

definition sort_best :: "TopCreature list \<Rightarrow> TopCreature list" where
  "sort_best best = sort_key (\<lambda>t. - t_score t) best"

text \<open>\<^verbatim>\<open>for i := len(best)-1; i > maxCreatures; i-- { best[i] = nil; best = best[:len(best)-1] }\<close>\<close>

function truncate_loop :: "int \<Rightarrow> TopCreature list \<Rightarrow> error + TopCreature list" where
  "truncate_loop i best =
     (if i > maxCreatures
      then (if nat i < length best then truncate_loop (i - 1) (butlast best)
            else Inl IndexPanic)
      else Inr best)"
  by pat_completeness auto
termination
  by (relation "measure (\<lambda>(i, best). nat i)") (auto simp: maxCreatures_def minCreatures_def)

declare truncate_loop.simps [simp del]

definition truncate_best :: "TopCreature list \<Rightarrow> error + TopCreature list" where
  "truncate_best best =
     (if int (length best) > maxBestCreatures
      then truncate_loop (int (length best) - 1) best
      else Inr best)"

text \<open>A sequence of folds, each a weight slice and a score, applied in order.\<close>

definition folds :: "heap \<Rightarrow> (fslice \<times> int) list \<Rightarrow> TopCreature list \<Rightarrow> TopCreature list" where
  "folds h fs best = foldl (\<lambda>best (ws, sc). fold_best h best ws sc) best fs"

text \<open>The value of a weight slice: its length and its elements.\<close>

definition weights_of :: "heap \<Rightarrow> fslice \<Rightarrow> real list" where
  "weights_of h s = map (slice_nth h s) [0..<len s]"

text \<open>The scores folded for the weight vector of slice \<open>s\<close>.\<close>

definition folded_scores :: "heap \<Rightarrow> (fslice \<times> int) list \<Rightarrow> fslice \<Rightarrow> int list" where
  "folded_scores h fs s = map snd (filter (\<lambda>(ws, sc). weights_of h ws = weights_of h s) fs)"

text \<open>A hall of fame of 41 entries with distinct weights, in descending order of score.\<close>

definition example_best :: "TopCreature list" where
  "example_best =
     map (\<lambda>i. \<lparr>t_score = 100 - int i,
               t_weights = example_slice i\<rparr>) [0..<41]"

section \<open>sim.go: spawning\<close>

definition NewRandomCreature :: "Sim \<Rightarrow> error + (Creature \<times> Sim)" where
  "NewRandomCreature s =
     rbind (NewRandomBrain (env s)) (\<lambda>(b, e).
     rbind (Intn (width s - creatureRadius) e) (\<lambda>(rx, e).
     rbind (Intn (height s - creatureRadius) e) (\<lambda>(ry, e).
     case Float64 e of (ra, e) \<Rightarrow>
     rbind (GetColor (heap e) b) (\<lambda>col.
     Inr (\<lparr>c_x = real_of_int (rx + creatureRadius),
           c_y = real_of_int (ry + creatureRadius),
           c_angle = ra * 2 * pi,
           score = 0,
           color = col,
           brain = b\<rparr>, s\<lparr>env := e\<rparr>)))))"

definition NewRandomCreatureWithWeights :: "Sim \<Rightarrow> fslice \<Rightarrow> error + (Creature \<times> Sim)" where
  "NewRandomCreatureWithWeights s weights =
     rbind (NewBrainFromWeights weights) (\<lambda>b.
     rbind (Intn (width s - creatureRadius) (env s)) (\<lambda>(rx, e).
     rbind (Intn (height s - creatureRadius) e) (\<lambda>(ry, e).
     case Float64 e of (ra, e) \<Rightarrow>
     rbind (GetColor (heap e) b) (\<lambda>col.
     Inr (\<lparr>c_x = real_of_int (rx + creatureRadius),
           c_y = real_of_int (ry + creatureRadius),
           c_angle = ra * 2 * pi,
           score = 0,
           color = col,
           brain = b\<rparr>, s\<lparr>env := e\<rparr>)))))"

text \<open>
  \<^verbatim>\<open>math.Copysign(0.5, d)\<close> for \<open>d \<noteq> 0\<close>, and the loop \<^verbatim>\<open>for d == 0 { d = rand.Float64()*2 - 1 }\<close>,
  which returns only when the random source yields a value other than 1/2.
\<close>

definition Copysign_half :: "real \<Rightarrow> real" where
  "Copysign_half d = (if d < 0 then - 0.5 else 0.5)"

partial_function (option) redraw_while_zero :: "real \<Rightarrow> Env \<Rightarrow> (real \<times> Env) option" where
  "redraw_while_zero d e =
     (if d = 0 then (case Float64 e of (r, e') \<Rightarrow> redraw_while_zero (r * 2 - 1) e')
      else Some (d, e))"

text \<open>\<^verbatim>\<open>NewRandomObstacle\<close> reads \<^verbatim>\<open>s.width\<close> and draws from the random source; its
  effect on the process state is \<open>random_obstacle\<close>.\<close>

definition random_obstacle :: "int \<Rightarrow> Env \<Rightarrow> error + (Obstacle \<times> Env)" where
  "random_obstacle w e =
     (case Float64 e of (r1, e) \<Rightarrow>
      case Float64 e of (r2, e) \<Rightarrow>
      case redraw_while_zero (r1 * 2 - 1) e of None \<Rightarrow> Inl Diverges | Some (dx1, e) \<Rightarrow>
      case redraw_while_zero (r2 * 2 - 1) e of None \<Rightarrow> Inl Diverges | Some (dy1, e) \<Rightarrow>
      let dx2 = dx1 + Copysign_half dx1; dy2 = dy1 + Copysign_half dy1 in
      rbind (Intn w e) (\<lambda>(rx, e).
      rbind (Intn w e) (\<lambda>(ry, e).
      case Float64 e of (ra, e) \<Rightarrow>
      rbind (Intn w e) (\<lambda>(rl, e).
      Inr (\<lparr>o_x = real_of_int rx,
            o_y = real_of_int ry,
            o_angle = ra * 2 * pi,
            dx = dx2,
            dy = dy2,
            o_length = real_of_int rl / 3 + real_of_int w / 6\<rparr>, e)))))"

definition NewRandomObstacle :: "Sim \<Rightarrow> error + (Obstacle \<times> Sim)" where
  "NewRandomObstacle s =
     rbind (random_obstacle (width s) (env s)) (\<lambda>(ob, e). Inr (ob, s\<lparr>env := e\<rparr>))"

definition shuffleCreatures :: "Sim \<Rightarrow> error + Sim" where
  "shuffleCreatures s =
     forM (rev [1..<length (creatures s)])
       (\<lambda>i s. rbind (Intn (int i + 1) (env s)) (\<lambda>(j, e).
               Inr (s\<lparr>creatures := (creatures s)[i := creatures s ! nat j,
                                                 nat j := creatures s ! i],
                      env := e\<rparr>))) s"

text \<open>
  The two spawn functions. The recycled creature keeps every field that is not assigned:
  its \<^verbatim>\<open>score\<close> and the \<^verbatim>\<open>x\<close>, \<^verbatim>\<open>inOutput\<close> and \<^verbatim>\<open>output\<close> of its brain.
\<close>

definition SpawnRandomCreature :: "Sim \<Rightarrow> error + Sim" where
  "SpawnRandomCreature s =
     (let lenCreaturePool = length (creaturePool s) in
      if lenCreaturePool > 0 then
        rbind (idx (creaturePool s) (lenCreaturePool - 1)) (\<lambda>c.
        rbind (RandomizeWeights (brain c) (env s)) (\<lambda>e.
        rbind (GetColor (heap e) (brain c)) (\<lambda>col.
        rbind (Intn (width s - creatureRadius) e) (\<lambda>(rx, e).
        rbind (Intn (height s - creatureRadius) e) (\<lambda>(ry, e).
        case Float64 e of (ra, e) \<Rightarrow>
        Inr (s\<lparr>creatures := creatures s @
                  [c\<lparr>color := col,
                     c_x := real_of_int (rx + creatureRadius),
                     c_y := real_of_int (ry + creatureRadius),
                     c_angle := ra * 2 * pi\<rparr>],
               creaturePool := butlast (creaturePool s),
               env := e\<rparr>))))))
      else
        rbind (NewRandomCreature s) (\<lambda>(c, s).
        Inr (s\<lparr>creatures := creatures s @ [c]\<rparr>)))"

definition SpawnCreatureWithWeights :: "Sim \<Rightarrow> fslice \<Rightarrow> error + Sim" where
  "SpawnCreatureWithWeights s weights =
     (let lenCreaturePool = length (creaturePool s) in
      if lenCreaturePool > 0 then
        rbind (idx (creaturePool s) (lenCreaturePool - 1)) (\<lambda>c.
        rbind (SetWeights (brain c) weights) (\<lambda>b.
        rbind (GetColor (heap (env s)) b) (\<lambda>col.
        rbind (Intn (width s - creatureRadius) (env s)) (\<lambda>(rx, e).
        rbind (Intn (height s - creatureRadius) e) (\<lambda>(ry, e).
        case Float64 e of (ra, e) \<Rightarrow>
        Inr (s\<lparr>creatures := creatures s @
                  [c\<lparr>brain := b,
                     color := col,
                     c_x := real_of_int (rx + creatureRadius),
                     c_y := real_of_int (ry + creatureRadius),
                     c_angle := ra * 2 * pi\<rparr>],
               creaturePool := butlast (creaturePool s),
               env := e\<rparr>))))))
      else
        rbind (NewRandomCreatureWithWeights s weights) (\<lambda>(c, s).
        Inr (s\<lparr>creatures := creatures s @ [c]\<rparr>)))"

text \<open>\<^verbatim>\<open>copy(dst, src)\<close> copies \<open>min(len(dst), len(src))\<close> elements.\<close>

definition copy_f64 :: "heap \<Rightarrow> fslice \<Rightarrow> fslice \<Rightarrow> heap" where
  "copy_f64 h dst src =
     (let n = min (len dst) (len src) in
      h(arr dst := take (off dst) (h (arr dst)) @ map (slice_nth h src) [0..<n]
                   @ drop (off dst + n) (h (arr dst))))"

text \<open>
  The bodies of the clone loop and of the crossover loop of \<^verbatim>\<open>SpawnCreatures\<close>. The
  crossover loop carries \<^verbatim>\<open>offset\<close> beside the simulation.
\<close>

definition spawn_clone :: "nat \<Rightarrow> nat \<Rightarrow> int \<Rightarrow> Sim \<Rightarrow> error + Sim" where
  "spawn_clone lBestCreatures lWeights i s =
     (case make_f64 lWeights (env s) of (weights, e) \<Rightarrow>
      rbind (idx (bestCreatures s) (nat (go_mod i (int lBestCreatures)))) (\<lambda>t.
      SpawnCreatureWithWeights
        (s\<lparr>env := e\<lparr>heap := copy_f64 (heap e) weights (t_weights t)\<rparr>\<rparr>) weights))"

definition spawn_mixed :: "nat \<Rightarrow> nat \<Rightarrow> int \<Rightarrow> nat \<times> Sim \<Rightarrow> error + (nat \<times> Sim)" where
  "spawn_mixed lBestCreatures lWeights i os =
     (case os of (offset, s) \<Rightarrow>
      case make_f64 lWeights (env s) of (weights, e) \<Rightarrow>
      rbind (Intn (int lWeights) e) (\<lambda>(divider, e).
      rbind (forM [0..<nat divider]
               (\<lambda>j h. rbind (idx (bestCreatures s) (offset mod lBestCreatures)) (\<lambda>t.
                       rbind (slice_get h (t_weights t) j) (\<lambda>v.
                       slice_set h weights j v))) (heap e)) (\<lambda>h.
      rbind (forM [nat divider..<lWeights]
               (\<lambda>j h. rbind (idx (bestCreatures s) ((offset + 1) mod lBestCreatures)) (\<lambda>t.
                       rbind (slice_get h (t_weights t) j) (\<lambda>v.
                       slice_set h weights j v))) h) (\<lambda>h.
      rbind (SpawnCreatureWithWeights (s\<lparr>env := e\<lparr>heap := h\<rparr>\<rparr>) weights) (\<lambda>s.
      Inr (offset + 1, s))))))"

definition SpawnCreatures :: "int \<Rightarrow> Sim \<Rightarrow> error + Sim" where
  "SpawnCreatures n s =
     (let lBestCreatures = length (bestCreatures s) in
      if lBestCreatures > 0 then
        rbind (idx (bestCreatures s) 0) (\<lambda>t0.
        let lWeights = len (t_weights t0);
            nToSpawn = (if go_div n 2 < 1 then 1 else go_div n 2)
        in
        rbind (for_loop 0 nToSpawn (spawn_clone lBestCreatures lWeights) s) (\<lambda>(i, s).
        if i = n then Inr s
        else
          rbind (for_loop i (go_div n 4) (spawn_mixed lBestCreatures lWeights) (0, s))
            (\<lambda>(i, (offset, s)).
          rbind (for_loop i n (\<lambda>i. SpawnRandomCreature) s) (\<lambda>(i, s).
          Inr s))))
      else
        rbind (for_loop 0 n (\<lambda>i. SpawnRandomCreature) s) (\<lambda>(i, s).
        Inr s))"

definition SpawnObstacles :: "int \<Rightarrow> Sim \<Rightarrow> error + Sim" where
  "SpawnObstacles n s =
     rbind (for_loop 0 n
              (\<lambda>i s. rbind (NewRandomObstacle s) (\<lambda>(ob, s).
                      Inr (s\<lparr>obstacles := obstacles s @ [ob]\<rparr>))) s) (\<lambda>(i, s).
     Inr s)"

section \<open>sim.go: sensing and the tick\<close>

definition xyDist :: "real \<Rightarrow> real \<Rightarrow> real \<Rightarrow> real \<Rightarrow> real" where
  "xyDist x y p q = sqrt ((x - p) ^ 2 + (y - q) ^ 2)"

text \<open>
  The ray march of \<^verbatim>\<open>DistanceToNearest\<close>: \<open>(x, y)\<close> advances by \<open>(ax, ay)\<close> while it is
  inside the frame; the first pixel that is not of the background colour ends it with
  the distance from the creature, leaving the frame ends it with \<^verbatim>\<open>math.MaxFloat64\<close>.
  The creature's \<^verbatim>\<open>c.x, c.y\<close> are used as frame coordinates as they are.
\<close>

partial_function (option) ray_march ::
  "Sim \<Rightarrow> Creature \<Rightarrow> real \<Rightarrow> real \<Rightarrow> real \<Rightarrow> real \<Rightarrow> real option" where
  "ray_march s c ax ay x y =
     (if x < frameWidthf s \<and> x \<ge> 0 \<and> y < frameHeightf s \<and> y \<ge> 0
      then (if frame s (go_int x) (go_int y) then Some (xyDist (c_x c) (c_y c) x y)
            else ray_march s c ax ay (x + ax) (y + ay))
      else Some MaxFloat64)"

definition DistanceToNearest :: "Sim \<Rightarrow> Creature \<Rightarrow> real \<Rightarrow> real option" where
  "DistanceToNearest s c angle =
     (let ax = cos (angle + c_angle c);
          ay = sin (angle + c_angle c);
          x = c_x c + ax;
          y = c_y c + ay
      in ray_march s c ax ay x y)"

text \<open>
  \<^verbatim>\<open>GetAction\<close> fills \<^verbatim>\<open>s.brainInputs\<close> and steps the creature's brain; it returns the
  action, the creature with its stepped brain and the simulation.
\<close>

definition GetAction :: "Creature \<Rightarrow> Sim \<Rightarrow> error + ((real \<times> real) \<times> Creature \<times> Sim)" where
  "GetAction c s =
     rbind (forM [0..<numBrainInputs]
              (\<lambda>i s. let angle = pi * 2 * real i / real numBrainInputs in
                 case DistanceToNearest s c angle of
                   None \<Rightarrow> Inl Diverges
                 | Some d \<Rightarrow> rbind (upd (brainInputs s) i d) (\<lambda>bi.
                             Inr (s\<lparr>brainInputs := bi\<rparr>))) s) (\<lambda>s.
     rbind (Step (heap (env s)) (brain c) (brainInputs s)) (\<lambda>(action, b).
     Inr (action, c\<lparr>brain := b\<rparr>, s)))"

text \<open>
  What draw2d paints is not part of the repository: the three drawing steps of
  \<^verbatim>\<open>DoTick\<close> are parameters. \<open>draw_arena W H B f\<close> is the frame after the four border
  rectangles and the cleared interior have been filled over \<open>f\<close>, \<open>draw_obstacle B ob f\<close>
  the frame after the stroke of obstacle \<open>ob\<close>, \<open>draw_creature B c f\<close> the frame after
  the two circles of creature \<open>c\<close>.
\<close>

record Draw2d =
  draw_arena :: "real \<Rightarrow> real \<Rightarrow> real \<Rightarrow> (int \<Rightarrow> int \<Rightarrow> bool) \<Rightarrow> (int \<Rightarrow> int \<Rightarrow> bool)"
  draw_obstacle :: "real \<Rightarrow> Obstacle \<Rightarrow> (int \<Rightarrow> int \<Rightarrow> bool) \<Rightarrow> (int \<Rightarrow> int \<Rightarrow> bool)"
  draw_creature :: "real \<Rightarrow> Creature \<Rightarrow> (int \<Rightarrow> int \<Rightarrow> bool) \<Rightarrow> (int \<Rightarrow> int \<Rightarrow> bool)"

definition tick_draw_arena :: "Draw2d \<Rightarrow> Sim \<Rightarrow> Sim" where
  "tick_draw_arena D s =
     s\<lparr>frame := draw_arena D (frameWidthf s) (frameHeightf s) (borderWidthf s) (frame s)\<rparr>"

text \<open>The obstacle loop: advance obstacle \<open>i\<close>; if it is far off screen remove it and stay
  at index \<open>i\<close> (\<^verbatim>\<open>i--\<close> before \<^verbatim>\<open>i++\<close>).\<close>

definition move_obstacle :: "Obstacle \<Rightarrow> Obstacle" where
  "move_obstacle ob = ob\<lparr>o_x := o_x ob + dx ob, o_y := o_y ob + dy ob\<rparr>"

definition far_off_screen :: "Sim \<Rightarrow> Obstacle \<Rightarrow> bool" where
  "far_off_screen s ob =
     (let x = o_x ob; y = o_y ob; l = o_length ob in
      (x - frameWidthf s) \<ge> l \<or> - x \<ge> l \<or> (y - frameHeightf s) \<ge> l \<or> - y \<ge> l)"

function update_obstacles :: "nat \<Rightarrow> Sim \<Rightarrow> Sim" where
  "update_obstacles i s =
     (if i < length (obstacles s)
      then (if far_off_screen s (move_obstacle (obstacles s ! i))
            then update_obstacles i
                   (s\<lparr>obstacles := take i (obstacles s) @ drop (i + 1) (obstacles s)\<rparr>)
            else update_obstacles (i + 1)
                   (s\<lparr>obstacles := (obstacles s)[i := move_obstacle (obstacles s ! i)]\<rparr>))
      else s)"
  by pat_completeness auto
termination
  by (relation "measure (\<lambda>(i, s). length (obstacles s) - i)") auto

declare update_obstacles.simps [simp del]

definition tick_obstacles :: "Sim \<Rightarrow> error + Sim" where
  "tick_obstacles s =
     (let s = update_obstacles 0 s in
      if int (length (obstacles s)) < numObstacles
      then SpawnObstacles (numObstacles - int (length (obstacles s))) s
      else Inr s)"

definition tick_draw_obstacles :: "Draw2d \<Rightarrow> Sim \<Rightarrow> Sim" where
  "tick_draw_obstacles D s =
     s\<lparr>frame := foldl (\<lambda>f ob. draw_obstacle D (borderWidthf s) ob f) (frame s) (obstacles s)\<rparr>"

text \<open>The evolution cycle and the population floor.\<close>

definition tick_evolution :: "Sim \<Rightarrow> error + Sim" where
  "tick_evolution s =
     (if go_mod (tickCounter s) evolutionCycleTicks = 0
      then (if int (length (creatures s)) < maxCreatures
            then SpawnCreatures (maxCreatures - int (length (creatures s))) s
            else Inr s)
      else Inr s)"

definition tick_floor :: "Sim \<Rightarrow> error + Sim" where
  "tick_floor s =
     (if int (length (creatures s)) < minCreatures
      then SpawnCreatures (minCreatures - int (length (creatures s))) s
      else Inr s)"

text \<open>
  The death test of creature \<open>c\<close>: some pixel of the bounding box within
  \<open>creatureRadiusf\<close> of the creature's frame position is not of the background colour.
\<close>

definition creature_dead :: "Sim \<Rightarrow> Creature \<Rightarrow> bool" where
  "creature_dead s c =
     (let x = borderWidthf s + c_x c;
          y = borderWidthf s + c_y c;
          left = go_int x - creatureRadius;
          top = go_int y - creatureRadius;
          right = go_int x + creatureRadius;
          bottom = go_int y + creatureRadius
      in list_ex (\<lambda>cy. list_ex (\<lambda>cx.
           xyDist x y (real_of_int cx) (real_of_int cy) \<le> creatureRadiusf \<and> frame s cx cy)
           [left..right]) [top..bottom])"

text \<open>Removing dead creature \<open>i\<close>: fold it into the hall of fame, append it to the pool,
  delete it from the active list.\<close>

definition bury :: "nat \<Rightarrow> Sim \<Rightarrow> Sim" where
  "bury i s =
     s\<lparr>bestCreatures :=
         fold_best (heap (env s)) (bestCreatures s)
           (GetWeights (brain (creatures s ! i))) (score (creatures s ! i)),
       creaturePool := creaturePool s @ [creatures s ! i],
       creatures := take i (creatures s) @ drop (i + 1) (creatures s)\<rparr>"

function death_loop :: "nat \<Rightarrow> Sim \<Rightarrow> Sim" where
  "death_loop i s =
     (if i < length (creatures s)
      then (if creature_dead s (creatures s ! i) then death_loop i (bury i s)
            else death_loop (i + 1) s)
      else s)"
  by pat_completeness auto
termination
  by (relation "measure (\<lambda>(i, s). length (creatures s) - i)") (auto simp: bury_def)

declare death_loop.simps [simp del]

definition death_pass :: "Sim \<Rightarrow> Sim" where
  "death_pass s = death_loop 0 s"

text \<open>The action pass: \<^verbatim>\<open>for i := range s.creatures\<close>.\<close>

definition act :: "nat \<Rightarrow> Sim \<Rightarrow> error + Sim" where
  "act i s =
     rbind (idx (creatures s) i) (\<lambda>c.
     rbind (GetAction c s) (\<lambda>((turn, move), c, s).
     let c = c\<lparr>c_angle := c_angle c + turn / 8\<rparr>;
         ax = cos (c_angle c);
         ay = sin (c_angle c);
         c = c\<lparr>c_x := c_x c + ax * move * 4\<rparr>;
         c = c\<lparr>c_y := c_y c + ay * move * 4\<rparr>;
         c = (if score c < MaxInt64 then c\<lparr>score := score c + 1\<rparr> else c)
     in Inr (s\<lparr>creatures := (creatures s)[i := c]\<rparr>)))"

definition action_pass :: "Sim \<Rightarrow> error + Sim" where
  "action_pass s = forM [0..<length (creatures s)] act s"

text \<open>The hall-of-fame update for the living, the sort and the truncation.\<close>

definition update_top :: "Sim \<Rightarrow> error + Sim" where
  "update_top s =
     (let best = foldl (\<lambda>best c. fold_best (heap (env s)) best (GetWeights (brain c)) (score c))
                   (bestCreatures s) (creatures s)
      in rbind (truncate_best (sort_best best)) (\<lambda>best.
         Inr (s\<lparr>bestCreatures := best\<rparr>)))"

definition tick_draw_creatures :: "Draw2d \<Rightarrow> Sim \<Rightarrow> Sim" where
  "tick_draw_creatures D s =
     s\<lparr>frame := foldl (\<lambda>f c. draw_creature D (borderWidthf s) c f) (frame s) (creatures s)\<rparr>"

text \<open>The state in which the death pass starts: arena and obstacles drawn, spawning done,
  creatures shuffled.\<close>

definition tick_prepare :: "Draw2d \<Rightarrow> Sim \<Rightarrow> error + Sim" where
  "tick_prepare D s =
     rbind (tick_obstacles (tick_draw_arena D s)) (\<lambda>s.
     rbind (tick_evolution (tick_draw_obstacles D s)) (\<lambda>s.
     rbind (tick_floor s) (\<lambda>s.
     shuffleCreatures s)))"

definition DoTick :: "Draw2d \<Rightarrow> Sim \<Rightarrow> error + Sim" where
  "DoTick D s =
     rbind (tick_prepare D s) (\<lambda>s.
     rbind (action_pass (death_pass s)) (\<lambda>s.
     rbind (update_top s) (\<lambda>s.
     Inr ((tick_draw_creatures D s)\<lparr>tickCounter := tickCounter s + 1\<rparr>))))"

text \<open>
  \<^verbatim>\<open>SpawnCreatures\<close> as claim C8 words it: \<open>max(1, n/2)\<close> clones, then random creatures up
  to \<open>n\<close>, no crossover.
\<close>

definition SpawnCreatures_clones_then_random :: "int \<Rightarrow> Sim \<Rightarrow> error + Sim" where
  "SpawnCreatures_clones_then_random n s =
     rbind (idx (bestCreatures s) 0) (\<lambda>t0.
     rbind (for_loop 0 (max 1 (n div 2))
              (spawn_clone (length (bestCreatures s)) (len (t_weights t0))) s) (\<lambda>(i, s).
     rbind (for_loop (max 1 (n div 2)) n (\<lambda>i. SpawnRandomCreature) s) (\<lambda>(i, s).
     Inr s)))"

text \<open>
  Array \<open>A\<close> after \<open>n\<close> assignments \<^verbatim>\<open>A[base+j] = rand.Float64()*2 - 1\<close>, \<open>j = 0, ..., n-1\<close>,
  drawn from the random source in state \<open>e\<close>.
\<close>

definition rand_fill :: "Env \<Rightarrow> nat \<Rightarrow> nat \<Rightarrow> real list \<Rightarrow> real list" where
  "rand_fill e base n A = fold (\<lambda>j A. A[base + j := rfloat e (rpos e + j) * 2 - 1]) [0..<n] A"

text \<open>The position and heading that every spawn path draws, from the random source at
  position \<open>p\<close>.\<close>

definition spawn_x :: "Sim \<Rightarrow> nat \<Rightarrow> real" where
  "spawn_x s p =
     real_of_int (int (rint (env s) p) mod (width s - creatureRadius) + creatureRadius)"

definition spawn_y :: "Sim \<Rightarrow> nat \<Rightarrow> real" where
  "spawn_y s p =
     real_of_int (int (rint (env s) (p + 1)) mod (height s - creatureRadius) + creatureRadius)"

definition spawn_angle :: "Sim \<Rightarrow> nat \<Rightarrow> real" where
  "spawn_angle s p = rfloat (env s) (p + 2) * 2 * pi"

text \<open>
  The invariant of a running simulation that spawning, the death pass and the action
  pass rely on: the arena is larger than a creature, every brain has the layout of
  \<open>brain_ok\<close> with a full weight vector, and every hall-of-fame entry holds a full weight
  vector.
\<close>

definition creature_ok :: "Creature \<Rightarrow> bool" where
  "creature_ok c \<longleftrightarrow> brain_ok (brain c) \<and> numWeights \<le> len (allWeights (brain c))"

definition sim_ok :: "Sim \<Rightarrow> bool" where
  "sim_ok s \<longleftrightarrow>
     creatureRadius < width s \<and> creatureRadius < height s \<and>
     list_all creature_ok (creatures s) \<and>
     list_all creature_ok (creaturePool s) \<and>
     list_all (\<lambda>t. numWeights \<le> len (t_weights t)) (bestCreatures s) \<and>
     length (brainInputs s) = numBrainInputs"

text \<open>
  \<open>spawned k s s'\<close>: \<open>s'\<close> is \<open>s\<close> with \<open>k\<close> creatures appended, each placed by draws of
  the random source, the pool and the process state changed, and nothing else.
\<close>

definition spawned :: "nat \<Rightarrow> Sim \<Rightarrow> Sim \<Rightarrow> bool" where
  "spawned k s s' \<longleftrightarrow>
     (\<exists>cs pool e.
        s' = s\<lparr>creatures := creatures s @ cs, creaturePool := pool, env := e\<rparr> \<and>
        length cs = k \<and>
        list_all creature_ok cs \<and>
        list_all (\<lambda>c. \<exists>p. c_x c = spawn_x s p \<and> c_y c = spawn_y s p) cs \<and>
        list_all creature_ok pool \<and>
        rint e = rint (env s) \<and> rfloat e = rfloat (env s))"

text \<open>A random source for the closed instances that always yields 1/4 and 398, and the
  simulation \<^verbatim>\<open>NewSim(405, 720, 16)\<close> of \<^verbatim>\<open>main\<close> on it.\<close>

definition example_env :: Env where
  "example_env = \<lparr>heap = example_heap, hnext = 100, rfloat = (\<lambda>_. 1 / 4),
                   rint = (\<lambda>_. 398), rpos = 0\<rparr>"

definition example_sim :: Sim where
  "example_sim = NewSim 405 720 16 example_env"

text \<open>A dead creature with score 7 and the brain \<open>new_brain example_weights\<close>; a simulation
  with this creature in the pool and its hall-of-fame entry, as the death pass leaves
  them.\<close>

definition example_dead :: Creature where
  "example_dead = \<lparr>c_x = 404, c_y = 404, c_angle = 0, score = 7, color = (0, 0, 0),
                    brain = new_brain example_weights\<rparr>"

definition example_sim_pool :: Sim where
  "example_sim_pool =
     example_sim\<lparr>creaturePool := [example_dead],
                 bestCreatures := [\<lparr>t_score = 7, t_weights = GetWeights (brain example_dead)\<rparr>]\<rparr>"

text \<open>
  A frame for \<^verbatim>\<open>NewSim(405, 720, 16)\<close>: the border bands (and everything outside the
  437 x 752 image) and a vertical obstacle stroke three pixels wide on columns 117 to
  119, rows 50 to 200. A creature at \<open>(100, 100)\<close> heading along the x axis is drawn and
  tested for death at frame position \<open>(116, 116)\<close>, one unit left of the stroke.
\<close>

definition example_frame :: "int \<Rightarrow> int \<Rightarrow> bool" where
  "example_frame x y \<longleftrightarrow>
     x < 16 \<or> 421 \<le> x \<or> y < 16 \<or> 736 \<le> y \<or> (117 \<le> x \<and> x \<le> 119 \<and> 50 \<le> y \<and> y \<le> 200)"

definition example_sim_stroke :: Sim where
  "example_sim_stroke = example_sim\<lparr>frame := example_frame\<rparr>"

definition example_creature :: Creature where
  "example_creature = \<lparr>c_x = 100, c_y = 100, c_angle = 0, score = 0, color = (0, 0, 0),
                        brain = new_brain example_weights\<rparr>"

text \<open>
  An idealised rasteriser without anti-aliasing, for the closed instances (the theorems
  about \<open>DoTick\<close> hold for every \<open>Draw2d\<close>). The arena step marks every pixel outside the
  interior rectangle; the stroke of an obstacle marks the pixels whose centre is within
  half the line width of the segment; a creature marks the pixels whose centre is within
  its radius. Strokes and creatures only add marked pixels.
\<close>

definition on_stroke :: "real \<Rightarrow> Obstacle \<Rightarrow> int \<Rightarrow> int \<Rightarrow> bool" where
  "on_stroke B ob x y =
     (let ax = B + o_x ob; ay = B + o_y ob;
          ux = cos (o_angle ob) * o_length ob; uy = sin (o_angle ob) * o_length ob;
          px = real_of_int x + 1 / 2 - ax; py = real_of_int y + 1 / 2 - ay;
          t = max 0 (min 1 ((px * ux + py * uy) / (ux * ux + uy * uy)))
      in (px - t * ux)\<^sup>2 + (py - t * uy)\<^sup>2 \<le> (obstacleWidth / 2)\<^sup>2)"

definition ideal_draw :: Draw2d where
  "ideal_draw =
     \<lparr>draw_arena = (\<lambda>W H B f x y.
        real_of_int x < B \<or> W - B \<le> real_of_int x \<or> real_of_int y < B \<or> H - B \<le> real_of_int y),
      draw_obstacle = (\<lambda>B ob f x y. f x y \<or> on_stroke B ob x y),
      draw_creature = (\<lambda>B c f x y. f x y \<or>
        (real_of_int x + 1 / 2 - (B + c_x c))\<^sup>2 + (real_of_int y + 1 / 2 - (B + c_y c))\<^sup>2
          \<le> creatureRadiusf\<^sup>2)\<rparr>"

text \<open>\<open>env_same e e'\<close>: the process state \<open>e'\<close> differs from \<open>e\<close> at most in the position of
  the random source.\<close>

definition env_same :: "Env \<Rightarrow> Env \<Rightarrow> bool" where
  "env_same e e' \<longleftrightarrow> rint e' = rint e \<and> rfloat e' = rfloat e \<and> heap e' = heap e \<and> hnext e' = hnext e"

text \<open>
  \<open>sensed s c bi\<close>: \<open>bi\<close> holds the twelve ray distances that \<^verbatim>\<open>GetAction\<close> reads for
  creature \<open>c\<close> on the frame of \<open>s\<close>. \<open>acted s c c'\<close>: \<open>c'\<close> is what one iteration of the action
  pass makes of \<open>c\<close> in \<open>s\<close>: the brain is stepped on the sensed distances, the heading
  turns by \<open>turn / 8\<close>, the position advances by \<open>4 move\<close> along the new heading and the
  score is incremented (below \<^verbatim>\<open>math.MaxInt64\<close>).
\<close>

definition sensed :: "Sim \<Rightarrow> Creature \<Rightarrow> real list \<Rightarrow> bool" where
  "sensed s c bi \<longleftrightarrow>
     length bi = numBrainInputs \<and>
     list_all (\<lambda>i. DistanceToNearest s c (pi * 2 * real i / real numBrainInputs) = Some (bi ! i))
       [0..<numBrainInputs]"

definition acted :: "Sim \<Rightarrow> Creature \<Rightarrow> Creature \<Rightarrow> bool" where
  "acted s c c' \<longleftrightarrow>
     (\<exists>bi turn move b.
        sensed s c bi \<and>
        Step (heap (env s)) (brain c) bi = Inr ((turn, move), b) \<and>
        c' = c\<lparr>brain := b,
               c_angle := c_angle c + turn / 8,
               c_x := c_x c + cos (c_angle c + turn / 8) * move * 4,
               c_y := c_y c + sin (c_angle c + turn / 8) * move * 4,
               score := (if score c < MaxInt64 then score c + 1 else score c)\<rparr>)"

text \<open>
  \<open>drift_brain h b w\<close>: with the weights in heap \<open>h\<close>, output node 0 of brain \<open>b\<close> has only
  zero weights and output node 1 has weight \<open>w\<close> on the bias and zero weights elsewhere, so
  the action of \<open>b\<close> is \<open>(0, tanh w)\<close> whatever it senses. \<open>drifted w c c'\<close>: creature \<open>c'\<close> is
  where the action pass puts \<open>c\<close> for that action.
\<close>

definition drift_brain :: "heap \<Rightarrow> Brain \<Rightarrow> real \<Rightarrow> bool" where
  "drift_brain h b w \<longleftrightarrow>
     brain_ok b \<and> inOutput b ! 0 = 1 \<and>
     list_all (\<lambda>k. slice_nth h (p_weights (outLayer b ! 0)) k = 0) [0..<25] \<and>
     slice_nth h (p_weights (outLayer b ! 1)) 0 = w \<and>
     list_all (\<lambda>k. slice_nth h (p_weights (outLayer b ! 1)) k = 0) [1..<25]"

definition drifted :: "real \<Rightarrow> Creature \<Rightarrow> Creature \<Rightarrow> bool" where
  "drifted w c c' \<longleftrightarrow>
     c_angle c' = c_angle c \<and>
     c_x c' = c_x c + cos (c_angle c) * tanh w * 4 \<and>
     c_y c' = c_y c + sin (c_angle c) * tanh w * 4"

text \<open>
  A random source for the first tick of \<^verbatim>\<open>NewSim(405, 720, 16)\<close>. The six obstacles take
  draws 0 to 35, creature \<open>k\<close> of the twenty spawned takes draws \<open>36 + 953 k\<close> onwards: 950
  weights, then x, y and the heading. The first creature gets the weights \<open>drift_weights\<close>
  (all 0, but 1/2 on the bias of output node 1), the position \<open>(206, 713)\<close> and the heading
  \<open>pi / 2\<close>; every other creature is placed at \<open>(404, 404)\<close>.
\<close>

definition drift_env :: Env where
  "drift_env =
     \<lparr>heap = example_heap, hnext = 100,
      rfloat = (\<lambda>p. if p = 661 then 3 / 4 else if 36 \<le> p \<and> p < 986 then 1 / 2 else 1 / 4),
      rint = (\<lambda>p. if p = 986 then 200 else if p = 987 then 707 else 398),
      rpos = 0\<rparr>"

definition drift_sim :: Sim where
  "drift_sim = NewSim 405 720 16 drift_env"

definition drift_weights :: "real list" where
  "drift_weights = (replicate 950 0)[625 := 1 / 2]"

definition is_mover :: "Creature \<Rightarrow> bool" where
  "is_mover c \<longleftrightarrow>
     c_x c = 206 \<and> c_y c = 713 \<and> c_angle c = pi / 2 \<and>
     brain c = new_brain \<lparr>arr = 100, off = 0, len = numWeights, cap = numWeights\<rparr>"

definition drift_crowd :: "Creature list \<Rightarrow> bool" where
  "drift_crowd cs =
     (case cs of [] \<Rightarrow> True
      | c # rest \<Rightarrow> is_mover c \<and> list_all (\<lambda>c. c_x c = 404 \<and> c_y c = 404) rest)"

text \<open>
  The event loop of \<^verbatim>\<open>main\<close>: the simulation is \<^verbatim>\<open>NewSim(405, 720, 16)\<close>, every paint
  event runs \<^verbatim>\<open>DoTick\<close> and every touch runs \<^verbatim>\<open>SpawnRandomCreature\<close>. \<open>reachable D s\<close>: the
  program can be in state \<open>s\<close> between two events.
\<close>

inductive reachable :: "Draw2d \<Rightarrow> Sim \<Rightarrow> bool" for D where
  start: "reachable D (NewSim 405 720 16 e)"
| paint: "reachable D s \<Longrightarrow> DoTick D s = Inr s' \<Longrightarrow> reachable D s'"
| touch: "reachable D s \<Longrightarrow> SpawnRandomCreature s = Inr s' \<Longrightarrow> reachable D s'"

text \<open>
  The backing array of a creature's weight slice, and the facts about the heap that
  allocation (\<^verbatim>\<open>make\<close>) guarantees in Go: live and pooled creatures own pairwise
  different backing arrays, every array in use lies below the next fresh address, and each
  creature's weight slice fits inside its array.
\<close>

definition warr :: "Creature \<Rightarrow> nat" where
  "warr c = arr (allWeights (brain c))"

definition backed :: "heap \<Rightarrow> Creature \<Rightarrow> bool" where
  "backed h c \<longleftrightarrow>
     off (allWeights (brain c)) + len (allWeights (brain c)) \<le> length (h (warr c))"

definition heap_fresh :: "Sim \<Rightarrow> bool" where
  "heap_fresh s \<longleftrightarrow>
     distinct (map warr (creatures s @ creaturePool s)) \<and>
     list_all (\<lambda>c. warr c < hnext (env s) \<and> backed (heap (env s)) c)
       (creatures s @ creaturePool s) \<and>
     list_all (\<lambda>t. arr (t_weights t) < hnext (env s)) (bestCreatures s)"

text \<open>
  \<open>clone_of h0 t L h c\<close>: in heap \<open>h\<close> the weight slice of creature \<open>c\<close> has length \<open>L\<close> and
  holds what \<^verbatim>\<open>copy\<close> puts there from the weights that hall-of-fame entry \<open>t\<close> has in heap
  \<open>h0\<close> (the first \<open>min L (len t)\<close> elements). \<open>random_weights e h c\<close>: the weights of \<open>c\<close>
  in \<open>h\<close> are consecutive draws \<open>rand.Float64() * 2 - 1\<close> of the random source of \<open>e\<close>.
\<close>

definition clone_of :: "heap \<Rightarrow> TopCreature \<Rightarrow> nat \<Rightarrow> heap \<Rightarrow> Creature \<Rightarrow> bool" where
  "clone_of h0 t L h c \<longleftrightarrow>
     len (allWeights (brain c)) = L \<and>
     take (len (t_weights t)) (weights_of h (allWeights (brain c)))
       = take L (weights_of h0 (t_weights t))"

definition random_weights :: "Env \<Rightarrow> heap \<Rightarrow> Creature \<Rightarrow> bool" where
  "random_weights e h c \<longleftrightarrow>
     (\<exists>p. weights_of h (allWeights (brain c))
           = map (\<lambda>j. rfloat e (p + j) * 2 - 1) [0..<len (allWeights (brain c))])"

text \<open>The example simulation with one hall-of-fame entry, whose 950 weights are all 7.\<close>

definition example_sim_hall :: Sim where
  "example_sim_hall = example_sim\<lparr>bestCreatures := [\<lparr>t_score = 5, t_weights = example_slice 7\<rparr>]\<rparr>"

section \<open>Verification\<close>

lemma rbind_Inr [simp]: "rbind (Inr v) f = f v"
  by (simp add: rbind_def)

lemma rbind_Inl [simp]: "rbind (Inl e) f = Inl e"
  by (simp add: rbind_def)

lemma rbind_Inr_right [simp]: "rbind m Inr = m"
  by (simp add: rbind_def split: sum.splits)

lemma rbind_eq_Inr:
  "rbind m f = Inr r \<longleftrightarrow> (\<exists>v. m = Inr v \<and> f v = Inr r)"
  by (cases m) auto

lemma forM_append: "forM (xs @ ys) body s = rbind (forM xs body s) (forM ys body)"
  by (induction xs arbitrary: s) (auto simp: rbind_def split: sum.splits)

lemma forM_single [simp]: "forM [n] body = body n"
  by (rule ext) (simp add: rbind_def split: sum.splits)

lemma forM_invariant:
  assumes "I s" and "\<And>i s. i \<in> set ns \<Longrightarrow> I s \<Longrightarrow> \<exists>s'. body i s = Inr s' \<and> I s'"
  shows "\<exists>s'. forM ns body s = Inr s' \<and> I s'"
  using assms
proof (induction ns arbitrary: s)
  case Nil
  then show ?case by simp
next
  case (Cons i ns)
  from Cons.prems obtain s1 where s1: "body i s = Inr s1" "I s1"
    by (meson list.set_intros(1))
  have "\<exists>s'. forM ns body s1 = Inr s' \<and> I s'"
    by (rule Cons.IH [OF s1(2)]) (simp add: Cons.prems(2))
  with s1 show ?case by simp
qed

lemma idx_in [simp]: "i < length xs \<Longrightarrow> idx xs i = Inr (xs ! i)"
  by (simp add: idx_def)

lemma upd_in [simp]: "i < length xs \<Longrightarrow> upd xs i v = Inr (xs[i := v])"
  by (simp add: upd_def)

lemma block_step:
  assumes "length A = a" "k < length vs" "a + k < length x"
  shows "(A @ take k vs @ drop (a + k) x)[a + k := vs ! k]
         = A @ take (Suc k) vs @ drop (Suc (a + k)) x"
proof -
  have "(take k vs @ drop (a + k) x)[k := vs ! k] = take (Suc k) vs @ drop (Suc (a + k)) x"
    using assms
    by (simp add: list_update_append take_Suc_conv_app_nth min_def
         Cons_nth_drop_Suc [symmetric])
  then show ?thesis using assms by (simp add: list_update_append)
qed

lemma Step_load_input_prefix:
  assumes "n \<le> length input" "n < length (b_x b)"
  shows "forM [0..<n]
            (\<lambda>j b. rbind (idx input j) (\<lambda>v.
                    rbind (upd (b_x b) (j + 1) v) (\<lambda>xs.
                    Inr (b\<lparr>b_x := xs\<rparr>)))) b
         = Inr (b\<lparr>b_x := take 1 (b_x b) @ take n input @ drop (1 + n) (b_x b)\<rparr>)"
  using assms
proof (induction n)
  case 0
  then show ?case by (cases "b_x b") auto
next
  case (Suc n)
  have "(take 1 (b_x b) @ take n input @ drop (1 + n) (b_x b))[1 + n := input ! n]
        = take 1 (b_x b) @ take (Suc n) input @ drop (Suc (1 + n)) (b_x b)"
    using Suc.prems by (intro block_step) auto
  with Suc show ?case
    by (simp add: forM_append)
qed

lemma Step_load_input_eq:
  assumes "length input < length (b_x b)"
  shows "Step_load_input b input
         = Inr (b\<lparr>b_x := take 1 (b_x b) @ input @ drop (1 + length input) (b_x b)\<rparr>)"
  unfolding Step_load_input_def using Step_load_input_prefix [of "length input" input b] assms
  by simp

lemma Step_load_memory_prefix:
  assumes "2 + k \<le> length (b_output b)" "j + 2 + k \<le> length (b_x b)"
  shows "forM [2..<2 + k]
            (\<lambda>i b. rbind (idx (b_output b) i) (\<lambda>v.
                    rbind (upd (b_x b) (j + i) v) (\<lambda>xs.
                    Inr (b\<lparr>b_x := xs\<rparr>)))) b
         = Inr (b\<lparr>b_x := take (j + 2) (b_x b) @ take k (drop 2 (b_output b))
                            @ drop (j + 2 + k) (b_x b)\<rparr>)"
  using assms
proof (induction k)
  case 0
  then show ?case by simp
next
  case (Suc k)
  have "(take (j + 2) (b_x b) @ take k (drop 2 (b_output b)) @ drop (j + 2 + k) (b_x b))
          [j + 2 + k := drop 2 (b_output b) ! k]
        = take (j + 2) (b_x b) @ take (Suc k) (drop 2 (b_output b))
            @ drop (Suc (j + 2 + k)) (b_x b)"
    using Suc.prems by (intro block_step) auto
  moreover have "drop 2 (b_output b) ! k = b_output b ! (2 + k)"
    using Suc.prems by (intro nth_drop) auto
  moreover have "[2..<2 + Suc k] = [2..<2 + k] @ [2 + k]"
    by simp
  moreover have "j + (2 + k) = j + 2 + k" "2 + k < length (b_output b)"
     "j + 2 + k < length (b_x b)" "j + 2 + Suc k = Suc (j + 2 + k)"
    using Suc.prems by auto
  ultimately show ?case using Suc
    by (simp only: forM_append rbind_Inr forM_single idx_in upd_in Brain.simps)
       simp
qed

lemma Step_load_memory_eq:
  assumes "2 \<le> length (b_output b)" "j + length (b_output b) \<le> length (b_x b)"
  shows "Step_load_memory j b
         = Inr (b\<lparr>b_x := take (j + 2) (b_x b) @ drop 2 (b_output b)
                            @ drop (j + length (b_output b)) (b_x b)\<rparr>)"
proof -
  obtain k where k: "length (b_output b) = 2 + k"
    using assms(1) by (metis le_Suc_ex)
  show ?thesis
    unfolding Step_load_memory_def k
    using Step_load_memory_prefix [of k b j] assms k by (simp add: add.assoc)
qed

lemma TanhActivation_sum_ok:
  assumes "\<And>k. k \<in> set ks \<Longrightarrow> k < len (p_weights p)"
  shows "\<exists>v. TanhActivation_sum h p inputs ks acc = Inr v"
  using assms by (induction ks arbitrary: acc) (auto simp: slice_get_def)

lemma TanhActivation_ok:
  assumes "length inputs \<le> len (p_weights p)"
  shows "\<exists>v. TanhActivation h p inputs = Inr v"
proof -
  have "\<exists>v. TanhActivation_sum h p inputs [0..<length inputs] 0 = Inr v"
    using assms by (intro TanhActivation_sum_ok) auto
  then show ?thesis by (auto simp: TanhActivation_def)
qed

lemma brain_ok_lengths:
  assumes "brain_ok b"
  shows "length (inLayer b) = 24" "length (outLayer b) = 14" "length (b_output b) = 14"
    "length (b_x b) = 25" "length (inOutput b) = 25"
  using assms by (simp_all add: brain_ok_def numBrainInputs_def memorySize_def)

lemma brain_ok_inLayer_len:
  assumes "brain_ok b" "i < 24"
  shows "len (p_weights (inLayer b ! i)) = 25"
  using assms
  by (simp add: brain_ok_def numBrainInputs_def memorySize_def in_block_def view_def
      NewPerceptron_def inWeightLen_def)

lemma brain_ok_outLayer_len:
  assumes "brain_ok b" "i < 14"
  shows "len (p_weights (outLayer b ! i)) = 25"
  using assms
  by (simp add: brain_ok_def numBrainInputs_def memorySize_def out_block_def view_def
      NewPerceptron_def inWeightLen_def)

lemma Step_inLayer_ok:
  assumes "brain_ok b"
  shows "\<exists>ys. Step_inLayer h b = Inr (b\<lparr>inOutput := ys\<rparr>) \<and> length ys = length (inOutput b)"
proof -
  define I where "I b' \<longleftrightarrow> (\<exists>ys. b' = b\<lparr>inOutput := ys\<rparr> \<and> length ys = length (inOutput b))"
    for b'
  have "I b" unfolding I_def by (intro exI [of _ "inOutput b"]) simp
  moreover have "\<exists>s'. (\<lambda>i b. rbind (idx (inLayer b) i) (\<lambda>p.
               rbind (TanhActivation h p (b_x b)) (\<lambda>v.
               rbind (upd (inOutput b) (i + 1) v) (\<lambda>ys.
               Inr (b\<lparr>inOutput := ys\<rparr>))))) i s = Inr s' \<and> I s'"
    if "i \<in> set [0..<length (inLayer b)]" "I s" for i s
  proof -
    from that obtain ys where s: "s = b\<lparr>inOutput := ys\<rparr>" "length ys = 25" and i: "i < 24"
      using brain_ok_lengths [OF assms] by (auto simp: I_def)
    obtain v where "TanhActivation h (inLayer b ! i) (b_x b) = Inr v"
      using TanhActivation_ok [of "b_x b" "inLayer b ! i" h]
        brain_ok_inLayer_len [OF assms i] brain_ok_lengths [OF assms] by auto
    then show ?thesis
      using s i brain_ok_lengths [OF assms]
      by (auto simp: I_def intro!: exI [of _ "ys[Suc i := v]"])
  qed
  ultimately have "\<exists>s'. Step_inLayer h b = Inr s' \<and> I s'"
    unfolding Step_inLayer_def by (rule forM_invariant)
  then show ?thesis by (auto simp: I_def)
qed

lemma Step_outLayer_ok:
  assumes "brain_ok b"
  shows "\<exists>os. Step_outLayer h b = Inr (b\<lparr>b_output := os\<rparr>) \<and> length os = length (b_output b)"
proof -
  define I where "I b' \<longleftrightarrow> (\<exists>os. b' = b\<lparr>b_output := os\<rparr> \<and> length os = length (b_output b))"
    for b'
  have "I b" unfolding I_def by (intro exI [of _ "b_output b"]) simp
  moreover have "\<exists>s'. (\<lambda>i b. rbind (idx (outLayer b) i) (\<lambda>p.
               rbind (TanhActivation h p (inOutput b)) (\<lambda>v.
               rbind (upd (b_output b) i v) (\<lambda>os.
               Inr (b\<lparr>b_output := os\<rparr>))))) i s = Inr s' \<and> I s'"
    if "i \<in> set [0..<length (outLayer b)]" "I s" for i s
  proof -
    from that obtain os where s: "s = b\<lparr>b_output := os\<rparr>" "length os = 14" and i: "i < 14"
      using brain_ok_lengths [OF assms] by (auto simp: I_def)
    obtain v where "TanhActivation h (outLayer b ! i) (inOutput b) = Inr v"
      using TanhActivation_ok [of "inOutput b" "outLayer b ! i" h]
        brain_ok_outLayer_len [OF assms i] brain_ok_lengths [OF assms] by auto
    then show ?thesis
      using s i brain_ok_lengths [OF assms]
      by (auto simp: I_def intro!: exI [of _ "os[i := v]"])
  qed
  ultimately have "\<exists>s'. Step_outLayer h b = Inr s' \<and> I s'"
    unfolding Step_outLayer_def by (rule forM_invariant)
  then show ?thesis by (auto simp: I_def)
qed

lemma brain_ok_update [simp]:
  "length xs = length (b_x b) \<Longrightarrow> brain_ok (b\<lparr>b_x := xs\<rparr>) = brain_ok b"
  "length ys = length (inOutput b) \<Longrightarrow> brain_ok (b\<lparr>inOutput := ys\<rparr>) = brain_ok b"
  "length os = length (b_output b) \<Longrightarrow> brain_ok (b\<lparr>b_output := os\<rparr>) = brain_ok b"
  by (simp_all add: brain_ok_def)

lemma Step_loads:
  assumes "brain_ok b" "length input = numBrainInputs"
  shows "rbind (Step_load_input b input) (Step_load_memory (length input - 2))
         = Inr (b\<lparr>b_x := Step_x b input\<rparr>)"
proof -
  have l: "length input = 12" using assms by (simp add: numBrainInputs_def)
  note bl = brain_ok_lengths [OF assms(1)]
  have 1: "Step_load_input b input
           = Inr (b\<lparr>b_x := take 1 (b_x b) @ input @ drop 13 (b_x b)\<rparr>)"
    using Step_load_input_eq [of input b] l bl by simp
  have 2: "Step_load_memory 10 (b\<lparr>b_x := take 1 (b_x b) @ input @ drop 13 (b_x b)\<rparr>)
           = Inr (b\<lparr>b_x := Step_x b input\<rparr>)"
    by (subst Step_load_memory_eq) (use l bl in \<open>simp_all add: Step_x_def\<close>)
  show ?thesis using 1 2 l by simp
qed

lemma Step_eq:
  assumes "brain_ok b" "length input = numBrainInputs"
  shows "\<exists>ys os. length ys = 25 \<and> length os = 14 \<and>
           Step h b input
           = Inr ((os ! 0, os ! 1), b\<lparr>b_x := Step_x b input, inOutput := ys, b_output := os\<rparr>)"
proof -
  note bl = brain_ok_lengths [OF assms(1)]
  define b1 where "b1 = b\<lparr>b_x := Step_x b input\<rparr>"
  have ok1: "brain_ok b1"
    using assms bl by (simp add: b1_def Step_x_def numBrainInputs_def)
  obtain ys where ys: "Step_inLayer h b1 = Inr (b1\<lparr>inOutput := ys\<rparr>)" "length ys = 25"
    using Step_inLayer_ok [OF ok1, of h] brain_ok_lengths [OF ok1] by auto
  have ok2: "brain_ok (b1\<lparr>inOutput := ys\<rparr>)"
    using ok1 ys brain_ok_lengths [OF ok1] by simp
  obtain os where os: "Step_outLayer h (b1\<lparr>inOutput := ys\<rparr>)
                        = Inr (b1\<lparr>inOutput := ys, b_output := os\<rparr>)" "length os = 14"
    using Step_outLayer_ok [OF ok2, of h] brain_ok_lengths [OF ok2] by auto
  have "Step h b input
        = rbind (rbind (Step_load_input b input) (Step_load_memory (length input - 2))) (\<lambda>b.
          rbind (Step_inLayer h b) (\<lambda>b.
          rbind (Step_outLayer h b) (\<lambda>b.
          rbind (idx (b_output b) 0) (\<lambda>turn.
          rbind (idx (b_output b) 1) (\<lambda>move.
          Inr ((turn, move), b))))))"
    using assms(2) by (simp add: Step_def rbind_def split: sum.splits)
  also have "\<dots> = Inr ((os ! 0, os ! 1), b1\<lparr>inOutput := ys, b_output := os\<rparr>)"
    unfolding Step_loads [OF assms] using ys os by (simp add: b1_def)
  finally show ?thesis using ys os by (auto simp: b1_def)
qed

lemma forM_upt_closed:
  assumes "\<And>k. k < n \<Longrightarrow> body (lo + k) (g k) = Inr (g (Suc k))"
  shows "forM [lo..<lo + n] body (g 0) = Inr (g n)"
  using assms
proof (induction n)
  case 0
  then show ?case by simp
next
  case (Suc n)
  have "forM [lo..<lo + n] body (g 0) = Inr (g n)"
    using Suc by simp
  moreover have "body (lo + n) (g n) = Inr (g (Suc n))"
    using Suc.prems by simp
  moreover have "[lo..<lo + Suc n] = [lo..<lo + n] @ [lo + n]"
    by simp
  ultimately show ?case
    by (simp only: forM_append rbind_Inr forM_single)
qed

lemma forM_upt0_closed:
  assumes "\<And>k. k < n \<Longrightarrow> body k (g k) = Inr (g (Suc k))"
  shows "forM [0..<n] body (g 0) = Inr (g n)"
  using forM_upt_closed [of n body 0 g] assms by simp

lemma map_upd_step:
  assumes "n < length ps"
  shows "(map f [0..<n] @ drop n ps)[n := f n] = map f [0..<Suc n] @ drop (Suc n) ps"
  using assms
  by (simp add: list_update_append Cons_nth_drop_Suc [symmetric])

lemma reslice_view:
  "lo \<le> hi \<Longrightarrow> hi \<le> cap s \<Longrightarrow> reslice s lo hi = Inr (view s lo (hi - lo))"
  by (simp add: reslice_def view_def)

lemma bind_inLayer_eq:
  assumes "length (inLayer b) * inWeightLen \<le> cap (allWeights b)"
  shows "bind_inLayer b
         = Inr (b\<lparr>inLayer := map (in_block (allWeights b)) [0..<length (inLayer b)]\<rparr>)"
proof -
  define g where
    "g k = b\<lparr>inLayer := map (in_block (allWeights b)) [0..<k] @ drop k (inLayer b)\<rparr>" for k
  have "forM [0..<length (inLayer b)]
           (\<lambda>i b. let offset = i * inWeightLen in
              rbind (reslice (allWeights b) offset (offset + inWeightLen)) (\<lambda>ws.
              rbind (upd (inLayer b) i (NewPerceptron ws)) (\<lambda>ps.
              Inr (b\<lparr>inLayer := ps\<rparr>)))) (g 0) = Inr (g (length (inLayer b)))"
  proof (rule forM_upt0_closed)
    fix k assume k: "k < length (inLayer b)"
    have "Suc k * inWeightLen \<le> length (inLayer b) * inWeightLen"
      using k by (intro mult_le_mono1) simp
    then have c: "k * inWeightLen + inWeightLen \<le> cap (allWeights b)"
      using assms by simp
    show "(let offset = k * inWeightLen in
              rbind (reslice (allWeights (g k)) offset (offset + inWeightLen)) (\<lambda>ws.
              rbind (upd (inLayer (g k)) k (NewPerceptron ws)) (\<lambda>ps.
              Inr ((g k)\<lparr>inLayer := ps\<rparr>)))) = Inr (g (Suc k))"
      using k c map_upd_step [of k "inLayer b" "in_block (allWeights b)"]
      by (simp add: g_def reslice_view in_block_def Let_def del: upt_Suc)
  qed
  then show ?thesis by (simp add: bind_inLayer_def g_def)
qed

lemma bind_outLayer_eq:
  assumes "length (inLayer b) = numBrainInputs + memorySize"
    "length (inLayer b) * inWeightLen + length (outLayer b) * (length (inLayer b) + 1)
       \<le> cap (allWeights b)"
  shows "bind_outLayer b
         = Inr (b\<lparr>outLayer := map (out_block (allWeights b)) [0..<length (outLayer b)]\<rparr>)"
proof -
  define g where
    "g k = b\<lparr>outLayer := map (out_block (allWeights b)) [0..<k] @ drop k (outLayer b)\<rparr>" for k
  define L where "L = length (inLayer b)"
  have "forM [0..<length (outLayer b)]
        (\<lambda>i b. let offset = L * inWeightLen + (L + 1) * i in
           rbind (reslice (allWeights b) offset (offset + (L + 1))) (\<lambda>ws.
           rbind (upd (outLayer b) i (NewPerceptron ws)) (\<lambda>ps.
           Inr (b\<lparr>outLayer := ps\<rparr>)))) (g 0) = Inr (g (length (outLayer b)))"
  proof (rule forM_upt0_closed)
    fix k assume k: "k < length (outLayer b)"
    have "Suc k * (L + 1) \<le> length (outLayer b) * (L + 1)"
      using k by (intro mult_le_mono1) simp
    then have c: "L * inWeightLen + (L + 1) * k + (L + 1) \<le> cap (allWeights b)"
      using assms(2) by (simp add: L_def algebra_simps)
    show "(let offset = L * inWeightLen + (L + 1) * k in
           rbind (reslice (allWeights (g k)) offset (offset + (L + 1))) (\<lambda>ws.
           rbind (upd (outLayer (g k)) k (NewPerceptron ws)) (\<lambda>ps.
           Inr ((g k)\<lparr>outLayer := ps\<rparr>)))) = Inr (g (Suc k))"
      using k c map_upd_step [of k "outLayer b" "out_block (allWeights b)"] assms(1)
      by (simp add: g_def reslice_view out_block_def L_def Let_def del: upt_Suc)
  qed
  then show ?thesis by (simp add: bind_outLayer_def g_def L_def Let_def)
qed

lemma zero_output_eq:
  "zero_output b = Inr (b\<lparr>b_output := replicate (length (b_output b)) 0\<rparr>)"
proof -
  define g where
    "g k = b\<lparr>b_output := map (\<lambda>_. 0) [0..<k] @ drop k (b_output b)\<rparr>" for k
  have "forM [0..<length (b_output b)]
       (\<lambda>i b. rbind (upd (b_output b) i 0) (\<lambda>os. Inr (b\<lparr>b_output := os\<rparr>))) (g 0)
        = Inr (g (length (b_output b)))"
  proof (rule forM_upt0_closed)
    fix k assume k: "k < length (b_output b)"
    show "rbind (upd (b_output (g k)) k 0) (\<lambda>os. Inr ((g k)\<lparr>b_output := os\<rparr>)) = Inr (g (Suc k))"
      using k map_upd_step [of k "b_output b" "\<lambda>_. 0"]
      by (simp add: g_def del: upt_Suc)
  qed
  then show ?thesis by (simp add: zero_output_def g_def map_replicate_const)
qed

lemma SetWeights_eq:
  assumes "length (inLayer b) = numBrainInputs + memorySize"
    "length (outLayer b) = memorySize + 2" "numWeights \<le> cap ws"
  shows "SetWeights b ws
         = Inr (b\<lparr>inLayer := map (in_block ws) [0..<numBrainInputs + memorySize],
                  outLayer := map (out_block ws) [0..<memorySize + 2],
                  allWeights := ws\<rparr>)"
proof -
  have 1: "bind_inLayer (b\<lparr>allWeights := ws\<rparr>)
           = Inr (b\<lparr>allWeights := ws, inLayer := map (in_block ws) [0..<numBrainInputs + memorySize]\<rparr>)"
    by (subst bind_inLayer_eq) (use assms in \<open>simp_all add: numWeights_def\<close>)
  have 2: "bind_outLayer (b\<lparr>allWeights := ws, inLayer := map (in_block ws) [0..<numBrainInputs + memorySize]\<rparr>)
           = Inr (b\<lparr>allWeights := ws, inLayer := map (in_block ws) [0..<numBrainInputs + memorySize],
                    outLayer := map (out_block ws) [0..<memorySize + 2]\<rparr>)"
    by (subst bind_outLayer_eq) (use assms in \<open>simp_all add: numWeights_def\<close>)
  show ?thesis by (simp add: SetWeights_def 1 2)
qed

lemma SetWeights_ok:
  assumes "brain_ok b" "numWeights \<le> cap ws"
  shows "\<exists>b'. SetWeights b ws = Inr b' \<and> brain_ok b' \<and> allWeights b' = ws
           \<and> b_output b' = b_output b \<and> b_x b' = b_x b \<and> inOutput b' = inOutput b"
  using assms
  by (subst SetWeights_eq) (auto simp: brain_ok_def)

lemma blank_brain_eq:
  "blank_brain ws =
     Inr \<lparr>inLayer = replicate (numBrainInputs + memorySize) (NewPerceptron nil_slice),
          outLayer = replicate (memorySize + 2) (NewPerceptron nil_slice),
          b_output = replicate (memorySize + 2) 0,
          b_x = 1 # replicate (numBrainInputs + memorySize) 0,
          inOutput = 1 # replicate (numBrainInputs + memorySize) 0,
          allWeights = ws\<rparr>"
  by (simp add: blank_brain_def Let_def)

lemma NewBrainFromWeights_eq:
  assumes "numWeights \<le> cap ws"
  shows "NewBrainFromWeights ws = Inr (new_brain ws)"
  unfolding NewBrainFromWeights_def blank_brain_eq
  apply simp
  apply (subst bind_inLayer_eq)
  using assms apply (simp add: numWeights_def)
  apply simp
  apply (subst bind_outLayer_eq)
  using assms apply (simp_all add: numWeights_def)
  apply (simp add: zero_output_eq new_brain_def)
  done

lemma new_brain_ok: "numWeights \<le> cap ws \<Longrightarrow> brain_ok (new_brain ws)"
  by (simp add: brain_ok_def new_brain_def)

lemma example_brain_ok: "brain_ok (new_brain example_weights)"
  by (rule new_brain_ok)
     (simp add: example_weights_def example_slice_def numWeights_def numBrainInputs_def
        memorySize_def inWeightLen_def)

text \<open>
  Claim C3 says that the memory outputs occupy the 12 slots strictly after the last sensor
  slot, so that no memory value overwrites a sensor input and every sensor input can
  influence the result. The code does otherwise: after the first loop \<open>j = 12\<close>,
  \<^verbatim>\<open>j -= 2\<close> leaves 10, and the second loop writes \<^verbatim>\<open>output[2..13]\<close> to
  \<^verbatim>\<open>x[12..23]\<close>. Slot 12, which held the last sensor input, is overwritten by
  \<^verbatim>\<open>output[2]\<close>, and slot 24 is never written. For every live brain and every two
  input vectors of length 12 that differ at most in the last sensor input, \<open>Step\<close>
  returns the same result and the same brain; the vector left in \<^verbatim>\<open>x\<close> is the old
  \<^verbatim>\<open>x[0]\<close>, the first 11 sensor inputs, the 12 memory outputs and the old \<^verbatim>\<open>x[24]\<close>.
\<close>

theorem Step_last_sensor_overwritten:
  assumes "brain_ok b" "length input = numBrainInputs" "length input' = numBrainInputs"
    "butlast input = butlast input'"
  shows "Step h b input = Step h b input' \<and>
         (\<exists>r b'. Step h b input = Inr (r, b') \<and>
            b_x b' = take 1 (b_x b) @ butlast input @ drop 2 (b_output b) @ drop 24 (b_x b))"
proof -
  have t: "take 11 input = butlast input" "take 11 input' = butlast input'"
    using assms(2,3) by (simp_all add: butlast_conv_take numBrainInputs_def)
  then have x: "Step_x b input = Step_x b input'"
    using assms(4) by (simp add: Step_x_def)
  obtain ys os where 1: "Step h b input
      = Inr ((os ! 0, os ! 1), b\<lparr>b_x := Step_x b input, inOutput := ys, b_output := os\<rparr>)"
    using Step_eq [OF assms(1,2), of h] by auto
  have s: "Step h b input
        = rbind (rbind (Step_load_input b input) (Step_load_memory (length input - 2))) (\<lambda>b.
          rbind (Step_inLayer h b) (\<lambda>b.
          rbind (Step_outLayer h b) (\<lambda>b.
          rbind (idx (b_output b) 0) (\<lambda>turn.
          rbind (idx (b_output b) 1) (\<lambda>move.
          Inr ((turn, move), b))))))" if "length input = numBrainInputs" for input
    using that by (simp add: Step_def rbind_def split: sum.splits)
  have "Step h b input = Step h b input'"
    unfolding s [OF assms(2)] s [OF assms(3)]
      Step_loads [OF assms(1,2)] Step_loads [OF assms(1,3)] x ..
  moreover have "b_x (b\<lparr>b_x := Step_x b input, inOutput := ys, b_output := os\<rparr>)
      = take 1 (b_x b) @ butlast input @ drop 2 (b_output b) @ drop 24 (b_x b)"
    by (simp add: Step_x_def t)
  ultimately show ?thesis using 1 by blast
qed

theorem Step_last_sensor_overwritten_witness:
  "brain_ok (new_brain example_weights) \<and>
   length (replicate 11 0 @ [1::real]) = numBrainInputs \<and>
   length (replicate 11 0 @ [2::real]) = numBrainInputs \<and>
   butlast (replicate 11 0 @ [1::real]) = butlast (replicate 11 0 @ [2]) \<and>
   Step example_heap (new_brain example_weights) (replicate 11 0 @ [1])
     = Step example_heap (new_brain example_weights) (replicate 11 0 @ [2])"
  using Step_last_sensor_overwritten [OF example_brain_ok,
      of "replicate 11 0 @ [1]" "replicate 11 0 @ [2]" example_heap]
  by (simp add: example_brain_ok numBrainInputs_def)

text \<open>
  Claim C9: for every live brain \<open>b\<close> and every input vector,
  \<^verbatim>\<open>SetWeights(GetWeights(b))\<close> followed by \<open>Step\<close> yields exactly what \<open>Step\<close> yields
  without the round trip (the same result, the same panic on a wrong length, the same
  brain afterwards); the round trip returns the brain unchanged, so the weight layout and
  the recurrent memory are unchanged.
\<close>

theorem SetWeights_GetWeights_roundtrip:
  assumes "brain_ok b"
  shows "SetWeights b (GetWeights b) = Inr b \<and>
         rbind (SetWeights b (GetWeights b)) (\<lambda>b'. Step h b' input) = Step h b input"
proof -
  have "SetWeights b (GetWeights b) = Inr b"
    unfolding GetWeights_def
    by (subst SetWeights_eq) (use assms in \<open>auto simp: brain_ok_def\<close>)
  then show ?thesis by simp
qed

theorem SetWeights_GetWeights_roundtrip_witness:
  "brain_ok (new_brain example_weights) \<and>
   SetWeights (new_brain example_weights) (GetWeights (new_brain example_weights))
     = Inr (new_brain example_weights) \<and>
   rbind (SetWeights (new_brain example_weights) (GetWeights (new_brain example_weights)))
     (\<lambda>b'. Step example_heap b' (replicate 12 1))
     = Step example_heap (new_brain example_weights) (replicate 12 1)"
  using SetWeights_GetWeights_roundtrip [OF example_brain_ok, of example_heap "replicate 12 1"]
  by (simp add: example_brain_ok)

text \<open>
  Claim C10: on a live brain, \<open>Step\<close> aborts with the input-length panic when the input
  length differs from \<open>numBrainInputs\<close> (12), and for every input of length 12 it does
  not abort: every index stays in bounds and it returns a (turn, move) pair.
\<close>

theorem Step_panics_iff_wrong_length:
  assumes "brain_ok b"
  shows "(length input \<noteq> numBrainInputs \<longrightarrow> Step h b input = Inl InputLengthPanic) \<and>
         (length input = numBrainInputs \<longrightarrow>
            (\<exists>turn move b'. Step h b input = Inr ((turn, move), b') \<and> brain_ok b'))"
proof (intro conjI impI)
  assume "length input \<noteq> numBrainInputs"
  then show "Step h b input = Inl InputLengthPanic" by (simp add: Step_def)
next
  assume l: "length input = numBrainInputs"
  obtain ys os where 1: "length ys = 25" "length os = 14" "Step h b input
      = Inr ((os ! 0, os ! 1), b\<lparr>b_x := Step_x b input, inOutput := ys, b_output := os\<rparr>)"
    using Step_eq [OF assms l, of h] by auto
  have "brain_ok (b\<lparr>b_x := Step_x b input, inOutput := ys, b_output := os\<rparr>)"
    using assms 1 l brain_ok_lengths [OF assms]
    by (simp add: brain_ok_def Step_x_def numBrainInputs_def memorySize_def)
  with 1 show "\<exists>turn move b'. Step h b input = Inr ((turn, move), b') \<and> brain_ok b'"
    by blast
qed

theorem Step_panics_iff_wrong_length_witness:
  "brain_ok (new_brain example_weights) \<and>
   length (replicate 11 (1::real)) \<noteq> numBrainInputs \<and>
   Step example_heap (new_brain example_weights) (replicate 11 1) = Inl InputLengthPanic \<and>
   length (replicate 12 (1::real)) = numBrainInputs \<and>
   (\<exists>turn move b'. Step example_heap (new_brain example_weights) (replicate 12 1)
       = Inr ((turn, move), b') \<and> brain_ok b')"
  using Step_panics_iff_wrong_length [OF example_brain_ok, of "replicate 11 1" example_heap]
    Step_panics_iff_wrong_length [OF example_brain_ok, of "replicate 12 1" example_heap]
  by (simp add: example_brain_ok numBrainInputs_def)

lemma maxCreatures_eq: "maxCreatures = 20" "maxBestCreatures = 40"
  by (simp_all add: maxBestCreatures_def maxCreatures_def minCreatures_def)

lemma truncate_loop_eq:
  "int (length best) = i + 1 \<Longrightarrow> maxCreatures \<le> i
   \<Longrightarrow> truncate_loop i best = Inr (take (nat maxCreatures + 1) best)"
proof (induction i best rule: truncate_loop.induct)
  case (1 i best)
  show ?case
  proof (cases "i > maxCreatures")
    case True
    then have lt: "nat i < length best" using 1(2) by (simp add: maxCreatures_eq)
    have "int (length (butlast best)) = i - 1 + 1" "maxCreatures \<le> i - 1"
      using 1(2) True lt by (simp_all add: of_nat_diff)
    then have "truncate_loop (i - 1) (butlast best) = Inr (take (nat maxCreatures + 1) (butlast best))"
      by (rule 1(1) [OF True lt])
    moreover have "take (nat maxCreatures + 1) (butlast best) = take (nat maxCreatures + 1) best"
      using 1(2) True by (simp add: take_butlast maxCreatures_eq)
    ultimately show ?thesis using True lt by (subst truncate_loop.simps) simp
  next
    case False
    then have "i = maxCreatures" using 1(3) by simp
    then have "length best = nat maxCreatures + 1" using 1(2) by (simp add: maxCreatures_eq)
    then show ?thesis using False by (subst truncate_loop.simps) simp
  qed
qed

text \<open>
  Claim C7 says that a hall of fame larger than \<open>maxBestCreatures\<close> (40) is cut down to
  exactly \<open>maxCreatures\<close> (20) entries. The loop runs while the index \<open>i\<close> of the last
  entry is greater than \<open>maxCreatures\<close>, so the entries with indices 0 to 20 stay:
  whenever the size exceeds 40, the truncation keeps the first 21 entries of the sorted
  list, one more than \<open>maxCreatures\<close>.
\<close>

theorem truncate_best_leaves_21:
  assumes "int (length best) > maxBestCreatures"
  shows "truncate_best best = Inr (take 21 best) \<and> length (take 21 best) = nat maxCreatures + 1"
proof -
  have "truncate_loop (int (length best) - 1) best = Inr (take (nat maxCreatures + 1) best)"
    using assms
    by (intro truncate_loop_eq) (simp_all add: maxBestCreatures_def maxCreatures_def minCreatures_def)
  then show ?thesis using assms
    by (simp add: truncate_best_def maxBestCreatures_def maxCreatures_def minCreatures_def)
qed

theorem truncate_best_leaves_21_witness:
  "int (length example_best) > maxBestCreatures \<and>
   truncate_best example_best = Inr (take 21 example_best) \<and>
   length (take 21 example_best) = 21"
  using truncate_best_leaves_21 [of example_best]
  by (simp add: example_best_def maxBestCreatures_def maxCreatures_def minCreatures_def)


lemma WeightsEqual_iff:
  "WeightsEqual h t ws \<longleftrightarrow> weights_of h (t_weights t) = weights_of h ws"
  by (auto simp: WeightsEqual_def weights_of_def list_all_iff list_eq_iff_nth_eq)

lemma IndexOfWeights_from_none:
  "(\<forall>t\<in>set best. \<not> WeightsEqual h t ws) \<Longrightarrow> IndexOfWeights_from h best ws i = - 1"
  by (induction best arbitrary: i) auto

lemma IndexOfWeights_from_some:
  assumes "0 \<le> i" "IndexOfWeights_from h best ws i \<noteq> - 1"
  shows "i \<le> IndexOfWeights_from h best ws i \<and>
         nat (IndexOfWeights_from h best ws i - i) < length best \<and>
         WeightsEqual h (best ! nat (IndexOfWeights_from h best ws i - i)) ws"
  using assms
proof (induction best arbitrary: i)
  case Nil
  then show ?case by simp
next
  case (Cons t ts)
  show ?case
  proof (cases "WeightsEqual h t ws")
    case True
    then show ?thesis by simp
  next
    case False
    with Cons.prems have r: "IndexOfWeights_from h ts ws (i + 1) \<noteq> - 1" by simp
    have "i + 1 \<le> IndexOfWeights_from h ts ws (i + 1) \<and>
         nat (IndexOfWeights_from h ts ws (i + 1) - (i + 1)) < length ts \<and>
         WeightsEqual h (ts ! nat (IndexOfWeights_from h ts ws (i + 1) - (i + 1))) ws"
      using Cons.IH [of "i + 1"] Cons.prems(1) r by simp
    moreover define r where "r = IndexOfWeights_from h ts ws (i + 1)"
    ultimately have "i + 1 \<le> r" "nat (r - (i + 1)) < length ts"
      "WeightsEqual h (ts ! nat (r - (i + 1))) ws" by simp_all
    moreover have "nat (r - i) = Suc (nat (r - (i + 1)))"
      using \<open>i + 1 \<le> r\<close> by simp
    ultimately show ?thesis using False by (simp add: r_def [symmetric])
  qed
qed

lemma IndexOfWeights_found:
  assumes "IndexOfWeights h best ws \<noteq> - 1"
  shows "nat (IndexOfWeights h best ws) < length best"
    "WeightsEqual h (best ! nat (IndexOfWeights h best ws)) ws"
  using IndexOfWeights_from_some [of 0 h best ws] assms
  by (simp_all add: IndexOfWeights_def)

lemma IndexOfWeights_missing:
  "IndexOfWeights h best ws = - 1 \<longleftrightarrow> (\<forall>t\<in>set best. \<not> WeightsEqual h t ws)"
proof
  assume m: "IndexOfWeights h best ws = - 1"
  show "\<forall>t\<in>set best. \<not> WeightsEqual h t ws"
  proof (rule ccontr)
    assume "\<not> (\<forall>t\<in>set best. \<not> WeightsEqual h t ws)"
    then show False using m
    proof (induction best rule: rev_induct)
      case Nil
      then show ?case by simp
    next
      case (snoc t ts)
      have "IndexOfWeights_from h (ts @ [t]) ws i \<noteq> - 1" if "0 \<le> i"
        and "\<exists>u\<in>set (ts @ [t]). WeightsEqual h u ws" for i ts t
        using that
      proof (induction ts arbitrary: i)
        case Nil
        then show ?case by auto
      next
        case (Cons a ts)
        then show ?case by (cases "WeightsEqual h a ws") auto
      qed
      then show ?case using snoc.prems by (auto simp: IndexOfWeights_def)
    qed
  qed
next
  assume "\<forall>t\<in>set best. \<not> WeightsEqual h t ws"
  then show "IndexOfWeights h best ws = - 1"
    by (simp add: IndexOfWeights_def IndexOfWeights_from_none)
qed

lemma fold_best_new:
  assumes "\<forall>t\<in>set best. weights_of h (t_weights t) \<noteq> weights_of h ws"
  shows "fold_best h best ws sc = best @ [\<lparr>t_score = sc, t_weights = ws\<rparr>]"
  using assms IndexOfWeights_missing [of h best ws]
  by (simp add: fold_best_def WeightsEqual_iff)

lemma fold_best_existing:
  assumes "distinct (map (\<lambda>t. weights_of h (t_weights t)) best)"
    "k < length best" "weights_of h (t_weights (best ! k)) = weights_of h ws"
  shows "fold_best h best ws sc = best[k := (best ! k)\<lparr>t_score := max (t_score (best ! k)) sc\<rparr>]"
proof -
  have "\<not> (\<forall>t\<in>set best. \<not> WeightsEqual h t ws)"
    using assms(2,3) by (auto simp: WeightsEqual_iff)
  then have f: "IndexOfWeights h best ws \<noteq> - 1"
    using IndexOfWeights_missing by blast
  define r where "r = nat (IndexOfWeights h best ws)"
  have r: "r < length best" "weights_of h (t_weights (best ! r)) = weights_of h ws"
    using IndexOfWeights_found [OF f] by (simp_all add: r_def WeightsEqual_iff)
  have "map (\<lambda>t. weights_of h (t_weights t)) best ! r
        = map (\<lambda>t. weights_of h (t_weights t)) best ! k"
    using r assms(2,3) by simp
  then have "r = k"
    using nth_eq_iff_index_eq [OF assms(1), of r k] assms(2) r(1) by simp
  then show ?thesis
    using f by (auto simp: fold_best_def r_def Let_def max_def list_update_same_conv)
qed


lemma folds_snoc: "folds h (fs @ [(ws, sc)]) best = fold_best h (folds h fs best) ws sc"
  by (simp add: folds_def)

lemma folded_scores_snoc:
  "folded_scores h (fs @ [(ws, sc)]) s
   = folded_scores h fs s @ (if weights_of h ws = weights_of h s then [sc] else [])"
  by (simp add: folded_scores_def)

lemma folded_scores_empty:
  "folded_scores h fs s = [] \<longleftrightarrow> weights_of h s \<notin> (\<lambda>(ws, sc). weights_of h ws) ` set fs"
  by (auto simp: folded_scores_def filter_empty_conv image_iff)

lemma folds_invariant:
  "distinct (map (\<lambda>t. weights_of h (t_weights t)) (folds h fs [])) \<and>
   (\<forall>j<length (folds h fs []).
      folded_scores h fs (t_weights (folds h fs [] ! j)) \<noteq> [] \<and>
      t_score (folds h fs [] ! j) = Max (set (folded_scores h fs (t_weights (folds h fs [] ! j))))) \<and>
   (\<lambda>t. weights_of h (t_weights t)) ` set (folds h fs []) = (\<lambda>(ws, sc). weights_of h ws) ` set fs"
proof (induction fs rule: rev_induct)
  case Nil
  then show ?case by (simp add: folds_def)
next
  case (snoc f fs)
  obtain ws sc where f: "f = (ws, sc)" by (cases f)
  define hof where "hof = folds h fs []"
  define K where "K = (\<lambda>t::TopCreature. weights_of h (t_weights t))"
  have I1: "distinct (map K hof)"
    and I2: "\<And>j. j < length hof \<Longrightarrow> folded_scores h fs (t_weights (hof ! j)) \<noteq> [] \<and>
               t_score (hof ! j) = Max (set (folded_scores h fs (t_weights (hof ! j))))"
    and I3: "K ` set hof = (\<lambda>(ws, sc). weights_of h ws) ` set fs"
    using snoc.IH unfolding hof_def K_def by auto
  have step: "folds h (fs @ [f]) [] = fold_best h hof ws sc"
    by (simp add: f folds_snoc hof_def)
  show ?case
  proof (cases "weights_of h ws \<in> K ` set hof")
    case False
    then have new: "fold_best h hof ws sc = hof @ [\<lparr>t_score = sc, t_weights = ws\<rparr>]"
      by (intro fold_best_new) (force simp: K_def image_iff)
    have e: "folded_scores h fs ws = []"
      using False I3 by (simp add: folded_scores_empty)
    have "distinct (map K (hof @ [\<lparr>t_score = sc, t_weights = ws\<rparr>]))"
      using I1 False by (auto simp: K_def)
    moreover have "folded_scores h (fs @ [f]) (t_weights ((hof @ [\<lparr>t_score = sc, t_weights = ws\<rparr>]) ! j)) \<noteq> [] \<and>
        t_score ((hof @ [\<lparr>t_score = sc, t_weights = ws\<rparr>]) ! j)
          = Max (set (folded_scores h (fs @ [f]) (t_weights ((hof @ [\<lparr>t_score = sc, t_weights = ws\<rparr>]) ! j))))"
      if "j < length (hof @ [\<lparr>t_score = sc, t_weights = ws\<rparr>])" for j
    proof (cases "j < length hof")
      case True
      then have "K (hof ! j) \<noteq> weights_of h ws"
        using False by (metis image_eqI nth_mem)
      then show ?thesis using True I2 [OF True]
        by (simp add: f folded_scores_snoc nth_append K_def)
    next
      case False
      then have "j = length hof" using that by simp
      then show ?thesis by (simp add: f folded_scores_snoc e)
    qed
    moreover have "K ` set (hof @ [\<lparr>t_score = sc, t_weights = ws\<rparr>])
        = (\<lambda>(ws, sc). weights_of h ws) ` set (fs @ [f])"
      using I3 by (auto simp: f K_def)
    ultimately show ?thesis
      unfolding step new K_def by blast
  next
    case True
    then obtain k where k: "k < length hof" "K (hof ! k) = weights_of h ws"
      by (metis (no_types, lifting) image_iff in_set_conv_nth)
    define hof' where "hof' = hof[k := (hof ! k)\<lparr>t_score := max (t_score (hof ! k)) sc\<rparr>]"
    have ex: "fold_best h hof ws sc = hof'"
      unfolding hof'_def using I1 k by (intro fold_best_existing) (simp_all add: K_def)
    have keys: "map K hof' = map K hof"
      using k by (simp add: hof'_def K_def map_update list_update_same_conv)
    have "distinct (map K hof')" using I1 keys by simp
    moreover have "folded_scores h (fs @ [f]) (t_weights (hof' ! j)) \<noteq> [] \<and>
        t_score (hof' ! j) = Max (set (folded_scores h (fs @ [f]) (t_weights (hof' ! j))))"
      if "j < length hof'" for j
    proof (cases "j = k")
      case True
      have "Max (set (folded_scores h fs (t_weights (hof ! k)) @ [sc]))
            = max (Max (set (folded_scores h fs (t_weights (hof ! k))))) sc"
        using I2 [OF k(1)] by (simp add: Max_insert max.commute)
      then show ?thesis using True k I2 [OF k(1)]
        by (simp add: f folded_scores_snoc hof'_def K_def)
    next
      case False
      have j: "j < length hof" using that by (simp add: hof'_def)
      have "map K hof ! j \<noteq> map K hof ! k"
        using nth_eq_iff_index_eq [OF I1, of j k] j k(1) False by simp
      then have "K (hof ! j) \<noteq> weights_of h ws" using j k by simp
      then show ?thesis using False j I2 [OF j]
        by (simp add: f folded_scores_snoc hof'_def K_def)
    qed
    moreover have "K ` set hof' = (\<lambda>(ws, sc). weights_of h ws) ` set (fs @ [f])"
    proof -
      have "K ` set hof' = set (map K hof')" by simp
      also have "\<dots> = K ` set hof" unfolding keys by simp
      finally show ?thesis using I3 True by (auto simp: f)
    qed
    ultimately show ?thesis
      unfolding step ex K_def by blast
  qed
qed


text \<open>
  Claim C6: after any sequence of folds from the empty hall of fame, with the heap (the
  stored weights) unchanged throughout, no two entries have elementwise-equal weights
  (\<open>WeightsEqual\<close>, the code's own test), each entry's score is the maximum of the scores
  folded for its weight vector, and every folded vector has an entry. The single step
  is in \<open>fold_best_new\<close> (a new vector appends one entry) and \<open>fold_best_existing\<close> (an
  existing vector raises the stored score to the maximum of old and new).
\<close>

theorem folds_unique_max:
  "(\<forall>i<length (folds h fs []). \<forall>j<length (folds h fs []).
      i \<noteq> j \<longrightarrow> \<not> WeightsEqual h (folds h fs [] ! i) (t_weights (folds h fs [] ! j))) \<and>
   (\<forall>t\<in>set (folds h fs []). t_score t = Max (set (folded_scores h fs (t_weights t)))) \<and>
   (\<forall>(ws, sc)\<in>set fs. \<exists>t\<in>set (folds h fs []). WeightsEqual h t ws)"
proof -
  define hof where "hof = folds h fs []"
  define K where "K = (\<lambda>t::TopCreature. weights_of h (t_weights t))"
  have I1: "distinct (map K hof)"
    and I2: "\<And>j. j < length hof \<Longrightarrow>
               t_score (hof ! j) = Max (set (folded_scores h fs (t_weights (hof ! j))))"
    and I3: "K ` set hof = (\<lambda>(ws, sc). weights_of h ws) ` set fs"
    using folds_invariant [of h fs] unfolding hof_def K_def by auto
  have "\<not> WeightsEqual h (hof ! i) (t_weights (hof ! j))"
    if "i < length hof" "j < length hof" "i \<noteq> j" for i j
    using nth_eq_iff_index_eq [OF I1, of i j] that by (simp add: WeightsEqual_iff K_def)
  moreover have "t_score t = Max (set (folded_scores h fs (t_weights t)))" if "t \<in> set hof" for t
    using that I2 by (metis in_set_conv_nth)
  moreover have "\<exists>t\<in>set hof. WeightsEqual h t ws" if "(ws, sc) \<in> set fs" for ws sc
  proof -
    have "weights_of h ws \<in> K ` set hof" unfolding I3 using that by force
    then show ?thesis by (auto simp: K_def WeightsEqual_iff)
  qed
  ultimately show ?thesis unfolding hof_def by blast
qed

lemma weights_of_example_slice [simp]:
  "weights_of example_heap (example_slice a) = replicate 950 (real a)"
proof -
  have "map ((!) (replicate 950 (real a))) [0..<length (replicate 950 (real a))]
        = replicate 950 (real a)"
    by (rule map_nth)
  moreover have "slice_nth example_heap (example_slice a) = (!) (replicate 950 (real a))"
    by (rule ext) (simp add: slice_nth_def example_heap_def example_slice_def)
  ultimately show ?thesis
    by (simp add: weights_of_def example_slice_def)
qed

lemma folds_example:
  "folds example_heap [(example_slice 0, 50), (example_slice 1, 70), (example_slice 0, 30)] []
   = [\<lparr>t_score = 50, t_weights = example_slice 0\<rparr>, \<lparr>t_score = 70, t_weights = example_slice 1\<rparr>]"
proof -
  have 1: "fold_best example_heap [] (example_slice 0) 50
           = [\<lparr>t_score = 50, t_weights = example_slice 0\<rparr>]"
    by (subst fold_best_new) simp_all
  have 2: "fold_best example_heap [\<lparr>t_score = 50, t_weights = example_slice 0\<rparr>] (example_slice 1) 70
           = [\<lparr>t_score = 50, t_weights = example_slice 0\<rparr>, \<lparr>t_score = 70, t_weights = example_slice 1\<rparr>]"
    by (subst fold_best_new) simp_all
  have 3: "fold_best example_heap
             [\<lparr>t_score = 50, t_weights = example_slice 0\<rparr>, \<lparr>t_score = 70, t_weights = example_slice 1\<rparr>]
             (example_slice 0) 30
           = [\<lparr>t_score = 50, t_weights = example_slice 0\<rparr>, \<lparr>t_score = 70, t_weights = example_slice 1\<rparr>]"
    by (subst fold_best_existing [where k = 0]) simp_all
  show ?thesis unfolding folds_def by (simp only: foldl_Cons foldl_Nil prod.case 1 2 3)
qed

theorem folds_unique_max_witness:
  "folds example_heap [(example_slice 0, 50), (example_slice 1, 70), (example_slice 0, 30)] []
     = [\<lparr>t_score = 50, t_weights = example_slice 0\<rparr>, \<lparr>t_score = 70, t_weights = example_slice 1\<rparr>] \<and>
   \<not> WeightsEqual example_heap \<lparr>t_score = 50, t_weights = example_slice 0\<rparr> (example_slice 1) \<and>
   Max (set (folded_scores example_heap
          [(example_slice 0, 50), (example_slice 1, 70), (example_slice 0, 30)] (example_slice 0))) = 50 \<and>
   Max (set (folded_scores example_heap
          [(example_slice 0, 50), (example_slice 1, 70), (example_slice 0, 30)] (example_slice 1))) = 70"
  using folds_unique_max [of example_heap
      "[(example_slice 0, 50), (example_slice 1, 70), (example_slice 0, 30)]"]
  unfolding folds_example
  by (simp add: All_less_Suc2)

lemma for_loop_done [simp]: "n \<le> i \<Longrightarrow> for_loop i n body s = Inr (i, s)"
  by (subst for_loop.simps) simp

lemma for_loop_step:
  "i < n \<Longrightarrow> for_loop i n body s = rbind (body i s) (for_loop (i + 1) n body)"
  by (subst for_loop.simps) (simp add: rbind_def)

lemma for_loop_counter:
  "for_loop i n body s = Inr (j, s') \<Longrightarrow> j = max i n"
proof (induction i n body s rule: for_loop.induct)
  case (1 i n body s)
  show ?case
  proof (cases "i < n")
    case True
    then obtain s1 where s1: "body i s = Inr s1" "for_loop (i + 1) n body s1 = Inr (j, s')"
      using 1(2) by (auto simp: for_loop_step rbind_eq_Inr)
    have "j = max (i + 1) n" using 1(1) [OF True s1] .
    then show ?thesis using True by simp
  next
    case False
    then show ?thesis using 1(2) by simp
  qed
qed

lemma for_loop_rbind_counter:
  "rbind (for_loop i n body s) (\<lambda>(j, s). f j s) = rbind (for_loop i n body s) (\<lambda>(j, s). f (max i n) s)"
proof (cases "for_loop i n body s")
  case (Inl e)
  then show ?thesis by simp
next
  case (Inr r)
  then show ?thesis using for_loop_counter [of i n body s "fst r" "snd r"]
    by (cases r) simp
qed

lemma go_div_nonneg [simp]: "0 \<le> a \<Longrightarrow> 0 < b \<Longrightarrow> go_div a b = a div b"
  by (cases "a = 0") (simp_all add: go_div_def)

lemma SpawnCreatures_hall:
  assumes "bestCreatures s \<noteq> []" "0 \<le> n"
  shows "SpawnCreatures n s = SpawnCreatures_clones_then_random n s"
proof -
  define k where "k = max 1 (n div 2)"
  define C where "C = spawn_clone (length (bestCreatures s)) (len (t_weights (bestCreatures s ! 0)))"
  define M where "M = spawn_mixed (length (bestCreatures s)) (len (t_weights (bestCreatures s ! 0)))"
  have k: "(if go_div n 2 < 1 then 1 else go_div n 2) = k"
    using assms(2) by (simp add: k_def max_def)
  have q: "go_div n 4 \<le> k" using assms(2) by (simp add: k_def)
  have i0: "idx (bestCreatures s) 0 = Inr (bestCreatures s ! 0)"
    using assms(1) by simp
  have lhs: "SpawnCreatures n s
      = rbind (for_loop 0 k C s) (\<lambda>(i, s).
          if i = n then Inr s
          else rbind (for_loop i (go_div n 4) M (0, s)) (\<lambda>(i, (offset, s)).
               rbind (for_loop i n (\<lambda>i. SpawnRandomCreature) s) (\<lambda>(i, s). Inr s)))"
    using assms(1) unfolding SpawnCreatures_def Let_def k i0 C_def M_def by simp
  have rhs: "SpawnCreatures_clones_then_random n s
      = rbind (for_loop 0 k C s) (\<lambda>(i, s).
          rbind (for_loop k n (\<lambda>i. SpawnRandomCreature) s) (\<lambda>(i, s). Inr s))"
    unfolding SpawnCreatures_clones_then_random_def i0 C_def k_def by simp
  show ?thesis
  proof (cases "for_loop 0 k C s")
    case (Inl e)
    then show ?thesis by (simp add: lhs rhs)
  next
    case (Inr r)
    obtain j s1 where r: "r = (j, s1)" by (cases r)
    have j: "j = k" using for_loop_counter [of 0 k C s j s1] Inr r by (simp add: k_def)
    show ?thesis using q by (simp add: lhs rhs Inr r j)
  qed
qed

lemma rand_fill_0 [simp]: "rand_fill e base 0 A = A"
  by (simp add: rand_fill_def)

lemma rand_fill_Suc:
  "rand_fill e base (Suc n) A = (rand_fill e base n A)[base + n := rfloat e (rpos e + n) * 2 - 1]"
  by (simp add: rand_fill_def)

lemma length_rand_fill [simp]: "length (rand_fill e base n A) = length A"
  by (induction n) (simp_all add: rand_fill_Suc)

lemma nth_rand_fill:
  "i < length A \<Longrightarrow>
   rand_fill e base n A ! i = (if base \<le> i \<and> i < base + n then rfloat e (rpos e + (i - base)) * 2 - 1 else A ! i)"
proof (induction n)
  case 0
  then show ?case by simp
next
  case (Suc n)
  show ?case
  proof (cases "i = base + n")
    case True
    then show ?thesis using Suc.prems by (simp add: rand_fill_Suc)
  next
    case False
    then show ?thesis using Suc by (auto simp: rand_fill_Suc)
  qed
qed

lemma rand_fill_append:
  assumes "rfloat e' = rfloat e" "rpos e' = rpos e + m"
  shows "rand_fill e' (base + m) n (rand_fill e base m A) = rand_fill e base (m + n) A"
  using assms by (induction n) (simp_all add: rand_fill_Suc add.assoc)

lemma Intn_ok:
  "0 < n \<Longrightarrow> Intn n e = Inr (int (rint e (rpos e)) mod n, e\<lparr>rpos := rpos e + 1\<rparr>)"
  by (simp add: Intn_def)

lemma forM_upt0_rel:
  assumes "R 0 s"
    and "\<And>k s. k < n \<Longrightarrow> R k s \<Longrightarrow> \<exists>s'. body k s = Inr s' \<and> R (Suc k) s'"
  shows "\<exists>s'. forM [0..<n] body s = Inr s' \<and> R n s'"
  using assms(2)
proof (induction n)
  case 0
  then show ?case using assms(1) by simp
next
  case (Suc n)
  then obtain s1 where s1: "forM [0..<n] body s = Inr s1" "R n s1"
    by (metis less_Suc_eq)
  obtain s2 where "body n s1 = Inr s2" "R (Suc n) s2"
    using Suc.prems [of n s1] s1 by auto
  then show ?case using s1 by (simp add: forM_append)
qed

lemma GetColor_ok: "\<exists>col. GetColor h b = Inr col"
proof -
  have "\<exists>s'. forM [0..<len (allWeights b)]
                  (\<lambda>i (redAvg, greenAvg, blueAvg).
                     rbind (slice_get h (allWeights b) i) (\<lambda>w.
                     if i < len (allWeights b) div 3
                     then Inr (redAvg + w / real (len (allWeights b) div 3), greenAvg, blueAvg)
                     else if i < len (allWeights b) div 3 * 2
                     then Inr (redAvg, greenAvg, blueAvg + w / real (len (allWeights b) div 3))
                     else Inr (redAvg, greenAvg + w / real (len (allWeights b) div 3), blueAvg)))
                  (0, 0, 0) = Inr s' \<and> True"
    by (rule forM_invariant [where I = "\<lambda>_. True"]) (auto simp: slice_get_def)
  then show ?thesis
    by (auto simp: GetColor_def Let_def split: prod.splits)
qed

lemma randomize_block_eq:
  assumes "offset + n \<le> len ws"
  shows "randomize_block ws offset n e
         = Inr (e\<lparr>heap := (heap e)(arr ws := rand_fill e (off ws + offset) n (heap e (arr ws))),
                  rpos := rpos e + n\<rparr>)"
proof -
  define g where "g k = e\<lparr>heap := (heap e)(arr ws := rand_fill e (off ws + offset) k (heap e (arr ws))),
                  rpos := rpos e + k\<rparr>" for k
  have "forM [0..<n]
       (\<lambda>j e. case Float64 e of (r, e) \<Rightarrow>
          rbind (slice_set (heap e) ws (offset + j) (r * 2 - 1)) (\<lambda>h.
          Inr (e\<lparr>heap := h\<rparr>))) (g 0) = Inr (g n)"
  proof (rule forM_upt0_closed)
    fix k assume "k < n"
    then have "offset + k < len ws" using assms by simp
    then show "(case Float64 (g k) of (r, e) \<Rightarrow>
          rbind (slice_set (heap e) ws (offset + k) (r * 2 - 1)) (\<lambda>h.
          Inr (e\<lparr>heap := h\<rparr>))) = Inr (g (Suc k))"
      by (simp add: g_def Float64_def slice_set_def rand_fill_Suc add.assoc)
  qed
  moreover have "g 0 = e" by (simp add: g_def)
  ultimately show ?thesis by (simp add: randomize_block_def g_def)
qed

lemma RandomizeWeights_eq:
  "RandomizeWeights b e
   = Inr (e\<lparr>heap := (heap e)(arr (allWeights b) :=
                rand_fill e (off (allWeights b)) (len (allWeights b)) (heap e (arr (allWeights b)))),
            rpos := rpos e + len (allWeights b)\<rparr>)"
  unfolding RandomizeWeights_def by (subst randomize_block_eq) simp_all


lemma numWeights_eq: "numWeights = 950" "inWeightLen = 25" "numBrainInputs = 12" "memorySize = 12"
  by (simp_all add: numWeights_def inWeightLen_def numBrainInputs_def memorySize_def)

lemma NewRandomBrain_eq:
  "NewRandomBrain e
   = Inr (new_brain \<lparr>arr = hnext e, off = 0, len = numWeights, cap = numWeights\<rparr>,
          e\<lparr>heap := (heap e)(hnext e := rand_fill e 0 numWeights (replicate numWeights 0)),
            hnext := hnext e + 1,
            rpos := rpos e + numWeights\<rparr>)"
proof -
  define ws where "ws = \<lparr>arr = hnext e, off = 0, len = numWeights, cap = numWeights\<rparr>"
  define A where "A = replicate numWeights (0::real)"
  define e1 where "e1 = e\<lparr>heap := (heap e)(hnext e := A), hnext := hnext e + 1\<rparr>"
  define b0 where "b0 = \<lparr>inLayer = replicate 24 (NewPerceptron nil_slice),
          outLayer = replicate 14 (NewPerceptron nil_slice),
          b_output = replicate 14 0,
          b_x = 1 # replicate 24 0,
          inOutput = 1 # replicate 24 0,
          allWeights = ws\<rparr>"
  define E where "E m = e1\<lparr>heap := (heap e1)(hnext e := rand_fill e1 0 m A), rpos := rpos e1 + m\<rparr>" for m
  have mk: "make_f64 950 e = (ws, e1)"
    by (simp add: make_f64_def ws_def e1_def A_def numWeights_eq)
  have E0: "E 0 = e1" by (simp add: E_def e1_def)
  have rb: "randomize_block ws m 25 (E m) = Inr (E (m + 25))" if "m + 25 \<le> 950" for m
  proof -
    have "rand_fill (E m) (0 + m) 25 (rand_fill e1 0 m A) = rand_fill e1 0 (m + 25) A"
      by (rule rand_fill_append) (simp_all add: E_def)
    then show ?thesis
      using that
      by (subst randomize_block_eq)
         (simp_all add: ws_def numWeights_eq E_def add.assoc)
  qed
  define g1 where "g1 k = (b0\<lparr>inLayer := map (in_block ws) [0..<k] @ drop k (inLayer b0)\<rparr>, E (k * 25))" for k
  have g10: "(b0, e1) = g1 0" by (simp add: g1_def E0)
  have len1: "length (inLayer b0) = 24" by (simp add: b0_def)
  have l1: "init_inLayer b0 e1 = Inr (g1 24)"
    unfolding init_inLayer_def len1 g10
  proof (rule forM_upt0_closed)
    fix k :: nat assume k: "k < 24"
    have r: "randomize_block ws (k * 25) 25 (E (k * 25)) = Inr (E (Suc k * 25))"
      using rb [of "k * 25"] k by (simp add: add.commute)
    have c: "k * 25 + 25 \<le> cap ws" using k by (simp add: ws_def numWeights_eq)
    have u: "(map (in_block ws) [0..<k] @ drop k (inLayer b0))[k := in_block ws k]
             = map (in_block ws) [0..<Suc k] @ drop (Suc k) (inLayer b0)"
      using k by (intro map_upd_step) (simp add: b0_def)
    show "(case g1 k of (b, e) \<Rightarrow> let offset = k * inWeightLen in
                 rbind (randomize_block (allWeights b) offset inWeightLen e) (\<lambda>e.
                 rbind (reslice (allWeights b) offset (offset + inWeightLen)) (\<lambda>ws.
                 rbind (upd (inLayer b) k (NewPerceptron ws)) (\<lambda>ps.
                 Inr (b\<lparr>inLayer := ps\<rparr>, e))))) = Inr (g1 (Suc k))"
      using k c u
      by (simp add: g1_def Let_def numWeights_eq b0_def r reslice_view in_block_def del: upt_Suc)
  qed
  define b1 where "b1 = b0\<lparr>inLayer := map (in_block ws) [0..<24]\<rparr>"
  define g2 where "g2 k = (b1\<lparr>outLayer := map (out_block ws) [0..<k] @ drop k (outLayer b1)\<rparr>,
                           E (600 + k * 25))" for k
  have g1e: "g1 24 = (b1, E 600)" by (simp add: g1_def b1_def b0_def)
  have g20: "(b1, E 600) = g2 0" by (simp add: g2_def)
  have len2: "length (outLayer b1) = 14" by (simp add: b1_def b0_def)
  have l2: "init_outLayer 25 b1 (E 600) = Inr (g2 14)"
    unfolding init_outLayer_def len2 g20
  proof (rule forM_upt0_closed)
    fix k :: nat assume k: "k < 14"
    have r: "randomize_block ws (600 + 25 * k) 25 (E (600 + k * 25)) = Inr (E (600 + Suc k * 25))"
      using rb [of "600 + k * 25"] k by (simp add: add.commute mult.commute add.left_commute)
    have c: "600 + 25 * k + 25 \<le> cap ws" using k by (simp add: ws_def numWeights_eq)
    have u: "(map (out_block ws) [0..<k] @ drop k (outLayer b1))[k := out_block ws k]
             = map (out_block ws) [0..<Suc k] @ drop (Suc k) (outLayer b1)"
      using k by (intro map_upd_step) (simp add: b1_def b0_def)
    show "(case g2 k of (b, e) \<Rightarrow>
                 let offset = length (inLayer b) * inWeightLen + 25 * k in
                 rbind (randomize_block (allWeights b) offset 25 e) (\<lambda>e.
                 rbind (reslice (allWeights b) offset (offset + 25)) (\<lambda>ws.
                 rbind (upd (outLayer b) k (NewPerceptron ws)) (\<lambda>ps.
                 Inr (b\<lparr>outLayer := ps\<rparr>, e))))) = Inr (g2 (Suc k))"
      using k c u
      by (simp add: g2_def Let_def numWeights_eq b1_def b0_def r reslice_view out_block_def
            del: upt_Suc)
  qed
  have fin: "E 950 = e\<lparr>heap := (heap e)(hnext e := rand_fill e 0 950 A),
            hnext := hnext e + 1, rpos := rpos e + 950\<rparr>"
  proof -
    have "rand_fill e1 0 950 A = rand_fill e 0 950 A"
      by (simp add: rand_fill_def e1_def)
    then show ?thesis by (simp add: E_def e1_def)
  qed
  have g2e: "g2 14 = (b1\<lparr>outLayer := map (out_block ws) [0..<14]\<rparr>, E 950)"
    by (simp add: g2_def b1_def b0_def)
  have z: "zero_output (b1\<lparr>outLayer := map (out_block ws) [0..<14]\<rparr>)
           = Inr (new_brain ws)"
    by (simp add: zero_output_eq b1_def b0_def new_brain_def numWeights_eq)
  have "NewRandomBrain e
        = rbind (init_inLayer b0 e1) (\<lambda>(b, e).
          rbind (init_outLayer 25 b e) (\<lambda>(b, e).
          rbind (zero_output b) (\<lambda>b. Inr (b, e))))"
    by (simp add: NewRandomBrain_def blank_brain_eq numWeights_eq mk Let_def b0_def)
  also have "\<dots> = Inr (new_brain ws, E 950)"
    by (simp add: l1 g1e l2 g2e z)
  finally show ?thesis
    unfolding fin by (simp add: ws_def A_def numWeights_eq)
qed

lemma SpawnRandomCreature_recycle:
  assumes "creaturePool s \<noteq> []" "creatureRadius < width s" "creatureRadius < height s"
  shows "\<exists>col. SpawnRandomCreature s
     = Inr (s\<lparr>creatures := creatures s @
               [(last (creaturePool s))
                  \<lparr>color := col,
                   c_x := spawn_x s (rpos (env s) + len (allWeights (brain (last (creaturePool s))))),
                   c_y := spawn_y s (rpos (env s) + len (allWeights (brain (last (creaturePool s))))),
                   c_angle := spawn_angle s (rpos (env s) + len (allWeights (brain (last (creaturePool s)))))\<rparr>],
              creaturePool := butlast (creaturePool s),
              env := (env s)
                \<lparr>heap := (heap (env s))(arr (allWeights (brain (last (creaturePool s)))) :=
                    rand_fill (env s) (off (allWeights (brain (last (creaturePool s)))))
                      (len (allWeights (brain (last (creaturePool s)))))
                      (heap (env s) (arr (allWeights (brain (last (creaturePool s))))))),
                 rpos := rpos (env s) + len (allWeights (brain (last (creaturePool s)))) + 3\<rparr>\<rparr>)"
proof -
  define c where "c = last (creaturePool s)"
  define e1 where "e1 = (env s)\<lparr>heap := (heap (env s))(arr (allWeights (brain c)) :=
                    rand_fill (env s) (off (allWeights (brain c))) (len (allWeights (brain c)))
                      (heap (env s) (arr (allWeights (brain c))))),
                 rpos := rpos (env s) + len (allWeights (brain c))\<rparr>"
  obtain col where col: "GetColor (heap e1) (brain c) = Inr col"
    using GetColor_ok by blast
  have i: "creaturePool s ! (length (creaturePool s) - Suc 0) = c"
    using assms(1) by (simp add: c_def last_conv_nth)
  have r: "RandomizeWeights (brain c) (env s) = Inr e1"
    by (simp add: RandomizeWeights_eq e1_def)
  show ?thesis
    using assms
    by (intro exI [of _ col])
       (simp add: SpawnRandomCreature_def Let_def i r col Intn_ok Float64_def
          spawn_x_def spawn_y_def spawn_angle_def c_def [symmetric],
        simp add: e1_def add.assoc)
qed

lemma SpawnRandomCreature_fresh:
  assumes "creaturePool s = []" "creatureRadius < width s" "creatureRadius < height s"
  shows "\<exists>col. SpawnRandomCreature s
     = Inr (s\<lparr>creatures := creatures s @
               [\<lparr>c_x = spawn_x s (rpos (env s) + numWeights),
                 c_y = spawn_y s (rpos (env s) + numWeights),
                 c_angle = spawn_angle s (rpos (env s) + numWeights),
                 score = 0,
                 color = col,
                 brain = new_brain \<lparr>arr = hnext (env s), off = 0, len = numWeights, cap = numWeights\<rparr>\<rparr>],
              env := (env s)
                \<lparr>heap := (heap (env s))(hnext (env s) :=
                    rand_fill (env s) 0 numWeights (replicate numWeights 0)),
                 hnext := hnext (env s) + 1,
                 rpos := rpos (env s) + numWeights + 3\<rparr>\<rparr>)"
proof -
  define ws where "ws = \<lparr>arr = hnext (env s), off = 0, len = numWeights, cap = numWeights\<rparr>"
  define e1 where "e1 = (env s)\<lparr>heap := (heap (env s))(hnext (env s) :=
                    rand_fill (env s) 0 numWeights (replicate numWeights 0)),
                 hnext := hnext (env s) + 1,
                 rpos := rpos (env s) + numWeights\<rparr>"
  obtain col where col: "GetColor (heap e1) (new_brain ws) = Inr col"
    using GetColor_ok by blast
  have n: "NewRandomBrain (env s) = Inr (new_brain ws, e1)"
    by (simp add: NewRandomBrain_eq ws_def e1_def)
  show ?thesis
    using assms
    by (intro exI [of _ col])
       (simp add: SpawnRandomCreature_def NewRandomCreature_def Let_def n col Intn_ok Float64_def
          spawn_x_def spawn_y_def spawn_angle_def ws_def [symmetric],
        simp add: e1_def add.assoc)
qed


lemma spawned_0: "list_all creature_ok (creaturePool s) \<Longrightarrow> spawned 0 s s"
  unfolding spawned_def
  by (rule exI [of _ "[]"], rule exI [of _ "creaturePool s"], rule exI [of _ "env s"]) simp

lemma spawned_env:
  assumes "spawned k (s\<lparr>env := e\<rparr>) s'" "rint e = rint (env s)" "rfloat e = rfloat (env s)"
  shows "spawned k s s'"
  using assms unfolding spawned_def spawn_x_def spawn_y_def by auto

lemma spawned_trans:
  assumes "spawned j s s1" "spawned k s1 s2"
  shows "spawned (j + k) s s2"
proof -
  obtain cs pool e where 1: "s1 = s\<lparr>creatures := creatures s @ cs, creaturePool := pool, env := e\<rparr>"
    "length cs = j" "list_all creature_ok cs"
    "list_all (\<lambda>c. \<exists>p. c_x c = spawn_x s p \<and> c_y c = spawn_y s p) cs"
    "rint e = rint (env s)" "rfloat e = rfloat (env s)"
    using assms(1) unfolding spawned_def by blast
  obtain cs' pool' e' where 2: "s2 = s1\<lparr>creatures := creatures s1 @ cs', creaturePool := pool', env := e'\<rparr>"
    "length cs' = k" "list_all creature_ok cs'"
    "list_all (\<lambda>c. \<exists>p. c_x c = spawn_x s1 p \<and> c_y c = spawn_y s1 p) cs'"
    "list_all creature_ok pool'"
    "rint e' = rint (env s1)" "rfloat e' = rfloat (env s1)"
    using assms(2) unfolding spawned_def by blast
  have x: "spawn_x s1 = spawn_x s" "spawn_y s1 = spawn_y s"
    using 1 by (auto simp: spawn_x_def spawn_y_def)
  have p: "list_all (\<lambda>c. \<exists>p. c_x c = spawn_x s p \<and> c_y c = spawn_y s p) cs'"
    using 2(4) unfolding x .
  have e: "rint e' = rint (env s)" "rfloat e' = rfloat (env s)"
    using 1 2 by simp_all
  have "s2 = s\<lparr>creatures := creatures s @ (cs @ cs'), creaturePool := pool', env := e'\<rparr>"
    using 1(1) 2(1) by simp
  moreover have "length (cs @ cs') = j + k" using 1 2 by simp
  moreover have "list_all creature_ok (cs @ cs')" using 1 2 by simp
  moreover have "list_all (\<lambda>c. \<exists>p. c_x c = spawn_x s p \<and> c_y c = spawn_y s p) (cs @ cs')"
    using 1(4) p by simp
  ultimately show ?thesis
    unfolding spawned_def using 2(5) e by blast
qed

lemma spawnedI:
  assumes "s' = s\<lparr>creatures := creatures s @ [c], creaturePool := pool, env := e\<rparr>"
    "creature_ok c" "c_x c = spawn_x s p" "c_y c = spawn_y s p"
    "list_all creature_ok pool" "rint e = rint (env s)" "rfloat e = rfloat (env s)"
  shows "spawned 1 s s'"
proof -
  have "length [c] = 1" "list_all creature_ok [c]"
    "list_all (\<lambda>c. \<exists>p. c_x c = spawn_x s p \<and> c_y c = spawn_y s p) [c]"
    using assms by auto
  then show ?thesis
    unfolding spawned_def using assms(1,5,6,7) by blast
qed

lemma allWeights_new_brain [simp]: "allWeights (new_brain ws) = ws"
  by (simp add: new_brain_def)

lemma spawned_sim_ok:
  assumes "sim_ok s" "spawned k s s'"
  shows "sim_ok s'" "length (creatures s') = length (creatures s) + k"
    "bestCreatures s' = bestCreatures s"
  using assms unfolding spawned_def sim_ok_def by auto

lemma new_brain_creature_ok:
  "numWeights \<le> cap ws \<Longrightarrow> numWeights \<le> len ws \<Longrightarrow> creature_ok (c\<lparr>brain := new_brain ws\<rparr>)"
  by (simp add: creature_ok_def new_brain_ok)

lemma pool_nil_update:
  "creaturePool s = [] \<Longrightarrow>
   s\<lparr>creatures := X, env := E\<rparr> = s\<lparr>creatures := X, creaturePool := [], env := E\<rparr>"
  by (cases s) simp

lemma SpawnRandomCreature_spawned:
  assumes "sim_ok s"
  shows "\<exists>s'. SpawnRandomCreature s = Inr s' \<and> spawned 1 s s'"
proof (cases "creaturePool s = []")
  case True
  have w: "creatureRadius < width s" "creatureRadius < height s"
    using assms by (simp_all add: sim_ok_def)
  obtain col where eq: "SpawnRandomCreature s
     = Inr (s\<lparr>creatures := creatures s @
               [\<lparr>c_x = spawn_x s (rpos (env s) + numWeights),
                 c_y = spawn_y s (rpos (env s) + numWeights),
                 c_angle = spawn_angle s (rpos (env s) + numWeights),
                 score = 0,
                 color = col,
                 brain = new_brain \<lparr>arr = hnext (env s), off = 0, len = numWeights, cap = numWeights\<rparr>\<rparr>],
              env := (env s)
                \<lparr>heap := (heap (env s))(hnext (env s) :=
                    rand_fill (env s) 0 numWeights (replicate numWeights 0)),
                 hnext := hnext (env s) + 1,
                 rpos := rpos (env s) + numWeights + 3\<rparr>\<rparr>)"
    using SpawnRandomCreature_fresh [OF True w] by blast
  define c' where "c' = \<lparr>c_x = spawn_x s (rpos (env s) + numWeights),
                 c_y = spawn_y s (rpos (env s) + numWeights),
                 c_angle = spawn_angle s (rpos (env s) + numWeights),
                 score = 0,
                 color = col,
                 brain = new_brain \<lparr>arr = hnext (env s), off = 0, len = numWeights, cap = numWeights\<rparr>\<rparr>"
  define e' where "e' = (env s)
                \<lparr>heap := (heap (env s))(hnext (env s) :=
                    rand_fill (env s) 0 numWeights (replicate numWeights 0)),
                 hnext := hnext (env s) + 1,
                 rpos := rpos (env s) + numWeights + 3\<rparr>"
  have eq': "SpawnRandomCreature s
             = Inr (s\<lparr>creatures := creatures s @ [c'], creaturePool := [], env := e'\<rparr>)"
    unfolding eq c'_def e'_def by (simp add: pool_nil_update [OF True])
  have "spawned 1 s (s\<lparr>creatures := creatures s @ [c'], creaturePool := [], env := e'\<rparr>)"
    by (rule spawnedI [OF refl, where p = "rpos (env s) + numWeights"])
       (simp_all add: c'_def e'_def creature_ok_def new_brain_ok)
  with eq' show ?thesis by simp
next
  case False
  have w: "creatureRadius < width s" "creatureRadius < height s"
    using assms by (simp_all add: sim_ok_def)
  have ok: "creature_ok (last (creaturePool s))" "list_all creature_ok (butlast (creaturePool s))"
    using assms False
    by (auto simp: sim_ok_def list_all_iff dest: in_set_butlastD)
  define aw where "aw = allWeights (brain (last (creaturePool s)))"
  obtain col where eq: "SpawnRandomCreature s
     = Inr (s\<lparr>creatures := creatures s @
               [(last (creaturePool s))
                  \<lparr>color := col,
                   c_x := spawn_x s (rpos (env s) + len aw),
                   c_y := spawn_y s (rpos (env s) + len aw),
                   c_angle := spawn_angle s (rpos (env s) + len aw)\<rparr>],
              creaturePool := butlast (creaturePool s),
              env := (env s)
                \<lparr>heap := (heap (env s))(arr aw :=
                    rand_fill (env s) (off aw) (len aw) (heap (env s) (arr aw))),
                 rpos := rpos (env s) + len aw + 3\<rparr>\<rparr>)"
    using SpawnRandomCreature_recycle [OF False w] unfolding aw_def by blast
  define c' where "c' = (last (creaturePool s))
                  \<lparr>color := col,
                   c_x := spawn_x s (rpos (env s) + len aw),
                   c_y := spawn_y s (rpos (env s) + len aw),
                   c_angle := spawn_angle s (rpos (env s) + len aw)\<rparr>"
  define e' where "e' = (env s)
                \<lparr>heap := (heap (env s))(arr aw :=
                    rand_fill (env s) (off aw) (len aw) (heap (env s) (arr aw))),
                 rpos := rpos (env s) + len aw + 3\<rparr>"
  have "spawned 1 s (s\<lparr>creatures := creatures s @ [c'],
                        creaturePool := butlast (creaturePool s), env := e'\<rparr>)"
    by (rule spawnedI [OF refl, where p = "rpos (env s) + len aw"])
       (use ok in \<open>simp_all add: c'_def e'_def creature_ok_def\<close>)
  with eq show ?thesis by (simp add: c'_def e'_def)
qed

lemma SpawnCreatureWithWeights_spawned:
  assumes "sim_ok s" "numWeights \<le> cap weights" "numWeights \<le> len weights"
  shows "\<exists>s'. SpawnCreatureWithWeights s weights = Inr s' \<and> spawned 1 s s'"
proof (cases "creaturePool s = []")
  case True
  have w: "creatureRadius < width s" "creatureRadius < height s"
    using assms by (simp_all add: sim_ok_def)
  obtain col where col: "GetColor (heap ((env s)\<lparr>rpos := rpos (env s) + 3\<rparr>)) (new_brain weights) = Inr col"
    using GetColor_ok by blast
  define c' where "c' = \<lparr>c_x = spawn_x s (rpos (env s)),
                 c_y = spawn_y s (rpos (env s)),
                 c_angle = spawn_angle s (rpos (env s)),
                 score = 0,
                 color = col,
                 brain = new_brain weights\<rparr>"
  define e' where "e' = (env s)\<lparr>rpos := rpos (env s) + 3\<rparr>"
  have "SpawnCreatureWithWeights s weights
     = Inr (s\<lparr>creatures := creatures s @ [c'], env := e'\<rparr>)"
    using True w assms(2) col
    by (simp add: SpawnCreatureWithWeights_def NewRandomCreatureWithWeights_def c'_def e'_def
          NewBrainFromWeights_eq Intn_ok Float64_def spawn_x_def spawn_y_def spawn_angle_def)
  then have eq: "SpawnCreatureWithWeights s weights
     = Inr (s\<lparr>creatures := creatures s @ [c'], creaturePool := [], env := e'\<rparr>)"
    by (simp add: pool_nil_update [OF True])
  have "spawned 1 s (s\<lparr>creatures := creatures s @ [c'], creaturePool := [], env := e'\<rparr>)"
    by (rule spawnedI [OF refl, where p = "rpos (env s)"])
       (use assms(2,3) in \<open>simp_all add: c'_def e'_def creature_ok_def new_brain_ok\<close>)
  with eq show ?thesis by simp
next
  case False
  define c where "c = last (creaturePool s)"
  have w: "creatureRadius < width s" "creatureRadius < height s"
    using assms by (simp_all add: sim_ok_def)
  have ok: "creature_ok c" "list_all creature_ok (butlast (creaturePool s))"
    using assms False
    by (auto simp: sim_ok_def list_all_iff c_def dest: in_set_butlastD)
  have i: "creaturePool s ! (length (creaturePool s) - Suc 0) = c"
    using False by (simp add: c_def last_conv_nth)
  obtain b where b: "SetWeights (brain c) weights = Inr b" "brain_ok b" "allWeights b = weights"
    using SetWeights_ok [of "brain c" weights] ok(1) assms(2) by (auto simp: creature_ok_def)
  obtain col where col: "GetColor (heap (env s)) b = Inr col"
    using GetColor_ok by blast
  define c' where "c' = c\<lparr>brain := b, color := col,
                  c_x := spawn_x s (rpos (env s)),
                  c_y := spawn_y s (rpos (env s)),
                  c_angle := spawn_angle s (rpos (env s))\<rparr>"
  define e' where "e' = (env s)\<lparr>rpos := rpos (env s) + 3\<rparr>"
  have eq: "SpawnCreatureWithWeights s weights
     = Inr (s\<lparr>creatures := creatures s @ [c'],
              creaturePool := butlast (creaturePool s), env := e'\<rparr>)"
    using False w
    by (simp add: SpawnCreatureWithWeights_def Let_def i b col Intn_ok Float64_def c'_def e'_def
          spawn_x_def spawn_y_def spawn_angle_def)
  have "spawned 1 s (s\<lparr>creatures := creatures s @ [c'],
              creaturePool := butlast (creaturePool s), env := e'\<rparr>)"
    by (rule spawnedI [OF refl, where p = "rpos (env s)"])
       (use ok b assms(3) in \<open>simp_all add: c'_def e'_def creature_ok_def\<close>)
  with eq show ?thesis by simp
qed

lemma for_loop_rel:
  assumes "R 0 s"
    and "\<And>k s. k < nat (n - i) \<Longrightarrow> R k s \<Longrightarrow> \<exists>s'. body (i + int k) s = Inr s' \<and> R (Suc k) s'"
  shows "\<exists>s'. for_loop i n body s = Inr (max i n, s') \<and> R (nat (n - i)) s'"
  using assms
proof (induction "nat (n - i)" arbitrary: i s R)
  case 0
  then show ?case by simp
next
  case (Suc m)
  then have lt: "i < n" by linarith
  obtain s1 where s1: "body i s = Inr s1" "R (Suc 0) s1"
    using Suc.prems(2) [of 0 s] Suc.prems(1) lt by auto
  have m: "m = nat (n - (i + 1))" using Suc.hyps(2) by linarith
  have "\<exists>s'. for_loop (i + 1) n body s1 = Inr (max (i + 1) n, s') \<and> (\<lambda>k. R (Suc k)) (nat (n - (i + 1))) s'"
  proof (rule Suc.hyps(1) [OF m])
    show "R (Suc 0) s1" by (rule s1)
  next
    fix k s assume k: "k < nat (n - (i + 1))" and r: "R (Suc k) s"
    have "Suc k < nat (n - i)" using k by linarith
    moreover have "i + int (Suc k) = i + 1 + int k" by simp
    ultimately show "\<exists>s'. body (i + 1 + int k) s = Inr s' \<and> R (Suc (Suc k)) s'"
      using Suc.prems(2) [of "Suc k" s] r by metis
  qed
  moreover have "Suc (nat (n - (i + 1))) = nat (n - i)" using lt by linarith
  moreover have "max (i + 1) n = max i n" using lt by simp
  ultimately show ?case using lt s1 by (simp add: for_loop_step)
qed

lemma go_mod_nonneg: "0 \<le> a \<Longrightarrow> 0 < b \<Longrightarrow> go_mod a b = a mod b"
  by (simp add: go_mod_def minus_mult_div_eq_mod)

lemma sim_ok_env [simp]: "sim_ok (s\<lparr>env := e\<rparr>) = sim_ok s"
  by (simp add: sim_ok_def)

lemma spawn_clone_spawned:
  assumes "sim_ok s" "bestCreatures s \<noteq> []" "0 \<le> i" "numWeights \<le> lWeights"
  shows "\<exists>s'. spawn_clone (length (bestCreatures s)) lWeights i s = Inr s' \<and> spawned 1 s s'"
proof -
  define ws where "ws = \<lparr>arr = hnext (env s), off = 0, len = lWeights, cap = lWeights\<rparr>"
  define e1 where "e1 = (env s)\<lparr>heap := (heap (env s))(hnext (env s) := replicate lWeights 0),
                              hnext := hnext (env s) + 1\<rparr>"
  define t where "t = bestCreatures s ! nat (go_mod i (int (length (bestCreatures s))))"
  define e2 where "e2 = e1\<lparr>heap := copy_f64 (heap e1) ws (t_weights t)\<rparr>"
  have mk: "make_f64 lWeights (env s) = (ws, e1)"
    by (simp add: make_f64_def ws_def e1_def)
  have ix: "nat (go_mod i (int (length (bestCreatures s)))) < length (bestCreatures s)"
    using assms(2,3) by (simp add: go_mod_nonneg nat_less_iff)
  have eq: "spawn_clone (length (bestCreatures s)) lWeights i s
            = SpawnCreatureWithWeights (s\<lparr>env := e2\<rparr>) ws"
    using ix by (simp add: spawn_clone_def mk t_def e2_def)
  obtain s' where s': "SpawnCreatureWithWeights (s\<lparr>env := e2\<rparr>) ws = Inr s'"
    "spawned 1 (s\<lparr>env := e2\<rparr>) s'"
    using SpawnCreatureWithWeights_spawned [of "s\<lparr>env := e2\<rparr>" ws] assms(1,4)
    by (auto simp: ws_def)
  have "spawned 1 s s'"
    by (rule spawned_env [OF s'(2)]) (simp_all add: e2_def e1_def)
  with eq s'(1) show ?thesis by simp
qed

lemma SpawnRandomCreature_loop:
  assumes "sim_ok s"
  shows "\<exists>s'. for_loop i n (\<lambda>i. SpawnRandomCreature) s = Inr (max i n, s') \<and>
               spawned (nat (n - i)) s s'"
proof (rule for_loop_rel [where R = "\<lambda>k s'. spawned k s s'"])
  show "spawned 0 s s" using assms by (simp add: spawned_0 sim_ok_def)
next
  fix k s1 assume "spawned k s s1"
  then have ok: "sim_ok s1" using assms spawned_sim_ok by blast
  obtain s2 where "SpawnRandomCreature s1 = Inr s2" "spawned 1 s1 s2"
    using SpawnRandomCreature_spawned [OF ok] by blast
  with \<open>spawned k s s1\<close> show "\<exists>s'. SpawnRandomCreature s1 = Inr s' \<and> spawned (Suc k) s s'"
    using spawned_trans [of k s s1 1 s2] by simp
qed

lemma spawn_clone_loop:
  assumes "sim_ok s" "bestCreatures s \<noteq> []" "0 \<le> i" "numWeights \<le> lWeights"
  shows "\<exists>s'. for_loop i n (spawn_clone (length (bestCreatures s)) lWeights) s = Inr (max i n, s') \<and>
               spawned (nat (n - i)) s s'"
proof (rule for_loop_rel [where R = "\<lambda>k s'. spawned k s s'"])
  show "spawned 0 s s" using assms by (simp add: spawned_0 sim_ok_def)
next
  fix k s1 assume "spawned k s s1"
  then have ok: "sim_ok s1" "bestCreatures s1 = bestCreatures s"
    using assms(1) spawned_sim_ok by blast+
  obtain s2 where "spawn_clone (length (bestCreatures s1)) lWeights (i + int k) s1 = Inr s2"
    "spawned 1 s1 s2"
    using spawn_clone_spawned [OF ok(1), of "i + int k" lWeights] assms(2,3,4) ok(2) by auto
  with \<open>spawned k s s1\<close>
  show "\<exists>s'. spawn_clone (length (bestCreatures s)) lWeights (i + int k) s1 = Inr s' \<and>
             spawned (Suc k) s s'"
    using spawned_trans [of k s s1 1 s2] ok(2) by simp
qed

lemma SpawnCreatures_spawned:
  assumes "sim_ok s" "0 \<le> n"
  shows "\<exists>s'. SpawnCreatures n s = Inr s' \<and>
               spawned (if bestCreatures s = [] then nat n else nat (max 1 n)) s s'"
proof (cases "bestCreatures s = []")
  case True
  obtain s' where "for_loop 0 n (\<lambda>i. SpawnRandomCreature) s = Inr (max 0 n, s')"
    "spawned (nat (n - 0)) s s'"
    using SpawnRandomCreature_loop [OF assms(1), of 0 n] by blast
  then show ?thesis using True by (simp add: SpawnCreatures_def)
next
  case False
  define k where "k = max 1 (n div 2)"
  define lw where "lw = len (t_weights (bestCreatures s ! 0))"
  have lw: "numWeights \<le> lw"
    using assms(1) False by (cases "bestCreatures s") (auto simp: sim_ok_def lw_def)
  obtain s1 where s1: "for_loop 0 k (spawn_clone (length (bestCreatures s)) lw) s = Inr (max 0 k, s1)"
    "spawned (nat (k - 0)) s s1"
    using spawn_clone_loop [OF assms(1) False, of 0 lw k] lw by auto
  have ok1: "sim_ok s1" using assms(1) s1(2) spawned_sim_ok by blast
  obtain s2 where s2: "for_loop k n (\<lambda>i. SpawnRandomCreature) s1 = Inr (max k n, s2)"
    "spawned (nat (n - k)) s1 s2"
    using SpawnRandomCreature_loop [OF ok1, of k n] by blast
  have "spawned (nat (k - 0) + nat (n - k)) s s2"
    using spawned_trans [OF s1(2) s2(2)] .
  moreover have "nat (k - 0) + nat (n - k) = nat (max 1 n)"
    using assms(2) by (auto simp: k_def max_def)
  moreover have "SpawnCreatures n s = Inr s2"
  proof -
    have "idx (bestCreatures s) 0 = Inr (bestCreatures s ! 0)" using False by simp
    then have "SpawnCreatures n s
        = rbind (for_loop 0 k (spawn_clone (length (bestCreatures s)) lw) s) (\<lambda>(i, s).
          rbind (for_loop k n (\<lambda>i. SpawnRandomCreature) s) (\<lambda>(i, s). Inr s))"
      unfolding SpawnCreatures_hall [OF False assms(2)] SpawnCreatures_clones_then_random_def
        k_def lw_def by simp
    then show ?thesis by (simp add: s1(1) s2(1))
  qed
  ultimately show ?thesis using False by simp
qed


lemma weights_of_cong:
  "h (arr ws) = h' (arr ws) \<Longrightarrow> weights_of h ws = weights_of h' ws"
  by (simp add: weights_of_def slice_nth_def)

lemma SpawnCreatureWithWeights_step:
  assumes "sim_ok s" "numWeights \<le> cap weights" "numWeights \<le> len weights"
  shows "\<exists>c'. SpawnCreatureWithWeights s weights
           = Inr (s\<lparr>creatures := creatures s @ [c'],
                    creaturePool := butlast (creaturePool s),
                    env := (env s)\<lparr>rpos := rpos (env s) + 3\<rparr>\<rparr>) \<and>
           allWeights (brain c') = weights"
proof (cases "creaturePool s = []")
  case True
  have w: "creatureRadius < width s" "creatureRadius < height s"
    using assms by (simp_all add: sim_ok_def)
  obtain col where col: "GetColor (heap ((env s)\<lparr>rpos := rpos (env s) + 3\<rparr>)) (new_brain weights) = Inr col"
    using GetColor_ok by blast
  define c' where "c' = \<lparr>c_x = spawn_x s (rpos (env s)),
                 c_y = spawn_y s (rpos (env s)),
                 c_angle = spawn_angle s (rpos (env s)),
                 score = 0,
                 color = col,
                 brain = new_brain weights\<rparr>"
  define e' where "e' = (env s)\<lparr>rpos := rpos (env s) + 3\<rparr>"
  have "SpawnCreatureWithWeights s weights
     = Inr (s\<lparr>creatures := creatures s @ [c'], env := e'\<rparr>)"
    using True w assms(2) col
    by (simp add: SpawnCreatureWithWeights_def NewRandomCreatureWithWeights_def c'_def e'_def
          NewBrainFromWeights_eq Intn_ok Float64_def spawn_x_def spawn_y_def spawn_angle_def)
  then have "SpawnCreatureWithWeights s weights
     = Inr (s\<lparr>creatures := creatures s @ [c'], creaturePool := butlast (creaturePool s),
              env := e'\<rparr>)"
    by (simp add: pool_nil_update [OF True] True)
  moreover have "allWeights (brain c') = weights" by (simp add: c'_def)
  ultimately show ?thesis unfolding e'_def by blast
next
  case False
  define c where "c = last (creaturePool s)"
  have w: "creatureRadius < width s" "creatureRadius < height s"
    using assms by (simp_all add: sim_ok_def)
  have ok: "creature_ok c"
    using assms False by (auto simp: sim_ok_def list_all_iff c_def)
  have i: "creaturePool s ! (length (creaturePool s) - Suc 0) = c"
    using False by (simp add: c_def last_conv_nth)
  obtain b where b: "SetWeights (brain c) weights = Inr b" "allWeights b = weights"
    using SetWeights_ok [of "brain c" weights] ok assms(2) by (auto simp: creature_ok_def)
  obtain col where col: "GetColor (heap (env s)) b = Inr col"
    using GetColor_ok by blast
  define c' where "c' = c\<lparr>brain := b, color := col,
                  c_x := spawn_x s (rpos (env s)),
                  c_y := spawn_y s (rpos (env s)),
                  c_angle := spawn_angle s (rpos (env s))\<rparr>"
  define e' where "e' = (env s)\<lparr>rpos := rpos (env s) + 3\<rparr>"
  have "SpawnCreatureWithWeights s weights
     = Inr (s\<lparr>creatures := creatures s @ [c'],
              creaturePool := butlast (creaturePool s), env := e'\<rparr>)"
    using False w
    by (simp add: SpawnCreatureWithWeights_def Let_def i b col Intn_ok Float64_def c'_def e'_def
          spawn_x_def spawn_y_def spawn_angle_def)
  moreover have "allWeights (brain c') = weights" by (simp add: c'_def b)
  ultimately show ?thesis unfolding e'_def by blast
qed

lemma spawn_clone_step:
  assumes "sim_ok s" "bestCreatures s \<noteq> []" "numWeights \<le> L"
    and "list_all (\<lambda>t. arr (t_weights t) < hnext (env s)) (bestCreatures s)"
  shows "\<exists>c' e'. spawn_clone (length (bestCreatures s)) L (int k) s
           = Inr (s\<lparr>creatures := creatures s @ [c'],
                    creaturePool := butlast (creaturePool s), env := e'\<rparr>) \<and>
           allWeights (brain c') = \<lparr>arr = hnext (env s), off = 0, len = L, cap = L\<rparr> \<and>
           hnext e' = hnext (env s) + 1 \<and> rfloat e' = rfloat (env s) \<and> rint e' = rint (env s) \<and>
           (\<forall>a. a \<noteq> hnext (env s) \<longrightarrow> heap e' a = heap (env s) a) \<and>
           length (heap e' (hnext (env s))) = L \<and>
           clone_of (heap (env s)) (bestCreatures s ! (k mod length (bestCreatures s))) L (heap e') c'"
proof -
  define ws where "ws = \<lparr>arr = hnext (env s), off = 0, len = L, cap = L\<rparr>"
  define e1 where "e1 = (env s)\<lparr>heap := (heap (env s))(hnext (env s) := replicate L 0),
                              hnext := hnext (env s) + 1\<rparr>"
  define t where "t = bestCreatures s ! (k mod length (bestCreatures s))"
  define e2 where "e2 = e1\<lparr>heap := copy_f64 (heap e1) ws (t_weights t)\<rparr>"
  have mk: "make_f64 L (env s) = (ws, e1)"
    by (simp add: make_f64_def ws_def e1_def)
  have gm: "nat (go_mod (int k) (int (length (bestCreatures s)))) = k mod length (bestCreatures s)"
    using assms(2) by (simp add: go_mod_nonneg nat_mod_distrib)
  have ix: "k mod length (bestCreatures s) < length (bestCreatures s)"
    using assms(2) by simp
  have eq: "spawn_clone (length (bestCreatures s)) L (int k) s
            = SpawnCreatureWithWeights (s\<lparr>env := e2\<rparr>) ws"
    using ix by (simp add: spawn_clone_def mk gm t_def e2_def)
  obtain c' where c': "SpawnCreatureWithWeights (s\<lparr>env := e2\<rparr>) ws
           = Inr (s\<lparr>env := e2\<rparr>\<lparr>creatures := creatures (s\<lparr>env := e2\<rparr>) @ [c'],
                    creaturePool := butlast (creaturePool (s\<lparr>env := e2\<rparr>)),
                    env := (env (s\<lparr>env := e2\<rparr>))\<lparr>rpos := rpos (env (s\<lparr>env := e2\<rparr>)) + 3\<rparr>\<rparr>)"
    "allWeights (brain c') = ws"
    using SpawnCreatureWithWeights_step [of "s\<lparr>env := e2\<rparr>" ws] assms(1,3)
    by (auto simp: ws_def)
  define e' where "e' = e2\<lparr>rpos := rpos e2 + 3\<rparr>"
  have r: "spawn_clone (length (bestCreatures s)) L (int k) s
           = Inr (s\<lparr>creatures := creatures s @ [c'],
                    creaturePool := butlast (creaturePool s), env := e'\<rparr>)"
    unfolding eq c'(1) e'_def by simp
  have src: "arr (t_weights t) < hnext (env s)"
    using assms(4) ix by (simp add: list_all_length t_def)
  define n where "n = min L (len (t_weights t))"
  have h': "heap e' = (heap (env s))(hnext (env s) :=
              map (slice_nth (heap (env s)) (t_weights t)) [0..<n] @ drop n (replicate L 0))"
  proof -
    have "slice_nth (heap e1) (t_weights t) = slice_nth (heap (env s)) (t_weights t)"
      using src by (intro ext) (simp add: slice_nth_def e1_def)
    then show ?thesis
      by (simp add: e'_def e2_def copy_f64_def Let_def ws_def n_def e1_def)
  qed
  have len': "length (heap e' (hnext (env s))) = L"
    by (simp add: h' n_def)
  have "take (len (t_weights t)) (weights_of (heap e') ws) = take L (weights_of (heap (env s)) (t_weights t))"
  proof (rule nth_equalityI)
    show "length (take (len (t_weights t)) (weights_of (heap e') ws))
          = length (take L (weights_of (heap (env s)) (t_weights t)))"
      by (simp add: weights_of_def ws_def min.commute)
  next
    fix j assume "j < length (take (len (t_weights t)) (weights_of (heap e') ws))"
    then have j: "j < L" "j < len (t_weights t)" by (simp_all add: weights_of_def ws_def)
    then have jn: "j < n" by (simp add: n_def)
    have "slice_nth (heap e') ws j = slice_nth (heap (env s)) (t_weights t) j"
      using jn by (simp add: slice_nth_def ws_def h' nth_append)
    then show "take (len (t_weights t)) (weights_of (heap e') ws) ! j
               = take L (weights_of (heap (env s)) (t_weights t)) ! j"
      using j by (simp add: weights_of_def ws_def)
  qed
  then have cl: "clone_of (heap (env s)) t L (heap e') c'"
    by (simp add: clone_of_def c'(2)) (simp add: ws_def)
  have "hnext e' = hnext (env s) + 1" "rfloat e' = rfloat (env s)" "rint e' = rint (env s)"
    by (simp_all add: e'_def e2_def e1_def)
  moreover have "\<forall>a. a \<noteq> hnext (env s) \<longrightarrow> heap e' a = heap (env s) a"
    by (simp add: h')
  ultimately show ?thesis
    using r c'(2) len' cl unfolding ws_def t_def by blast
qed

lemma SpawnRandomCreature_step:
  assumes "sim_ok s" "list_all (backed (heap (env s))) (creaturePool s)"
  shows "\<exists>c' e'. SpawnRandomCreature s
           = Inr (s\<lparr>creatures := creatures s @ [c'],
                    creaturePool := butlast (creaturePool s), env := e'\<rparr>) \<and>
           rfloat e' = rfloat (env s) \<and> rint e' = rint (env s) \<and>
           (if creaturePool s = []
            then warr c' = hnext (env s) \<and> hnext e' = hnext (env s) + 1
            else allWeights (brain c') = allWeights (brain (last (creaturePool s))) \<and>
                 hnext e' = hnext (env s)) \<and>
           (\<forall>a. a \<noteq> warr c' \<longrightarrow> heap e' a = heap (env s) a) \<and>
           backed (heap e') c' \<and>
           weights_of (heap e') (allWeights (brain c'))
             = map (\<lambda>j. rfloat (env s) (rpos (env s) + j) * 2 - 1)
                 [0..<len (allWeights (brain c'))]"
proof (cases "creaturePool s = []")
  case True
  have w: "creatureRadius < width s" "creatureRadius < height s"
    using assms by (simp_all add: sim_ok_def)
  define ws where "ws = \<lparr>arr = hnext (env s), off = 0, len = numWeights, cap = numWeights\<rparr>"
  obtain col where eq: "SpawnRandomCreature s
     = Inr (s\<lparr>creatures := creatures s @
               [\<lparr>c_x = spawn_x s (rpos (env s) + numWeights),
                 c_y = spawn_y s (rpos (env s) + numWeights),
                 c_angle = spawn_angle s (rpos (env s) + numWeights),
                 score = 0,
                 color = col,
                 brain = new_brain ws\<rparr>],
              env := (env s)
                \<lparr>heap := (heap (env s))(hnext (env s) :=
                    rand_fill (env s) 0 numWeights (replicate numWeights 0)),
                 hnext := hnext (env s) + 1,
                 rpos := rpos (env s) + numWeights + 3\<rparr>\<rparr>)"
    using SpawnRandomCreature_fresh [OF True w] unfolding ws_def by blast
  define c' where "c' = \<lparr>c_x = spawn_x s (rpos (env s) + numWeights),
                 c_y = spawn_y s (rpos (env s) + numWeights),
                 c_angle = spawn_angle s (rpos (env s) + numWeights),
                 score = 0,
                 color = col,
                 brain = new_brain ws\<rparr>"
  define e' where "e' = (env s)
                \<lparr>heap := (heap (env s))(hnext (env s) :=
                    rand_fill (env s) 0 numWeights (replicate numWeights 0)),
                 hnext := hnext (env s) + 1,
                 rpos := rpos (env s) + numWeights + 3\<rparr>"
  have 1: "SpawnRandomCreature s
             = Inr (s\<lparr>creatures := creatures s @ [c'], creaturePool := butlast (creaturePool s),
                      env := e'\<rparr>)"
    unfolding eq c'_def e'_def by (simp add: pool_nil_update [OF True] True)
  have wa: "warr c' = hnext (env s)" "allWeights (brain c') = ws"
    by (simp_all add: warr_def c'_def ws_def)
  have 2: "weights_of (heap e') (allWeights (brain c'))
             = map (\<lambda>j. rfloat (env s) (rpos (env s) + j) * 2 - 1)
                 [0..<len (allWeights (brain c'))]"
    unfolding wa(2) weights_of_def
    by (rule map_cong [OF refl]) (simp add: slice_nth_def ws_def e'_def nth_rand_fill)
  have 3: "backed (heap e') c'"
    by (simp add: backed_def wa) (simp add: ws_def e'_def)
  have 4: "\<forall>a. a \<noteq> warr c' \<longrightarrow> heap e' a = heap (env s) a"
    by (simp add: wa(1) e'_def)
  have 5: "rfloat e' = rfloat (env s)" "rint e' = rint (env s)" "hnext e' = hnext (env s) + 1"
    by (simp_all add: e'_def)
  show ?thesis
    using 1 2 3 4 5 wa(1) True by (intro exI [of _ c'] exI [of _ e']) simp
next
  case False
  have w: "creatureRadius < width s" "creatureRadius < height s"
    using assms by (simp_all add: sim_ok_def)
  define c where "c = last (creaturePool s)"
  define aw where "aw = allWeights (brain c)"
  have bk: "off aw + len aw \<le> length (heap (env s) (arr aw))"
    using assms(2) False by (auto simp: list_all_iff backed_def warr_def c_def aw_def)
  obtain col where eq: "SpawnRandomCreature s
     = Inr (s\<lparr>creatures := creatures s @
               [c\<lparr>color := col,
                   c_x := spawn_x s (rpos (env s) + len aw),
                   c_y := spawn_y s (rpos (env s) + len aw),
                   c_angle := spawn_angle s (rpos (env s) + len aw)\<rparr>],
              creaturePool := butlast (creaturePool s),
              env := (env s)
                \<lparr>heap := (heap (env s))(arr aw :=
                    rand_fill (env s) (off aw) (len aw) (heap (env s) (arr aw))),
                 rpos := rpos (env s) + len aw + 3\<rparr>\<rparr>)"
    using SpawnRandomCreature_recycle [OF False w] unfolding aw_def c_def by blast
  define c' where "c' = c\<lparr>color := col,
                   c_x := spawn_x s (rpos (env s) + len aw),
                   c_y := spawn_y s (rpos (env s) + len aw),
                   c_angle := spawn_angle s (rpos (env s) + len aw)\<rparr>"
  define e' where "e' = (env s)
                \<lparr>heap := (heap (env s))(arr aw :=
                    rand_fill (env s) (off aw) (len aw) (heap (env s) (arr aw))),
                 rpos := rpos (env s) + len aw + 3\<rparr>"
  have 1: "SpawnRandomCreature s
             = Inr (s\<lparr>creatures := creatures s @ [c'], creaturePool := butlast (creaturePool s),
                      env := e'\<rparr>)"
    unfolding eq c'_def e'_def ..
  have wa: "warr c' = arr aw" "allWeights (brain c') = aw"
    by (simp_all add: warr_def c'_def aw_def)
  have 2: "weights_of (heap e') (allWeights (brain c'))
             = map (\<lambda>j. rfloat (env s) (rpos (env s) + j) * 2 - 1)
                 [0..<len (allWeights (brain c'))]"
    unfolding wa(2) weights_of_def
    by (rule map_cong [OF refl]) (use bk in \<open>simp add: slice_nth_def e'_def nth_rand_fill\<close>)
  have 3: "backed (heap e') c'"
    using bk by (simp add: backed_def wa) (simp add: e'_def)
  have 4: "\<forall>a. a \<noteq> warr c' \<longrightarrow> heap e' a = heap (env s) a"
    by (simp add: wa(1) e'_def)
  have 5: "rfloat e' = rfloat (env s)" "rint e' = rint (env s)" "hnext e' = hnext (env s)"
    by (simp_all add: e'_def)
  show ?thesis
    using 1 2 3 4 5 wa(2) False unfolding aw_def c_def
    by (intro exI [of _ c'] exI [of _ e']) simp
qed

lemma heap_fresh_append:
  assumes "heap_fresh s"
    and "s' = s\<lparr>creatures := creatures s @ [c'],
                 creaturePool := butlast (creaturePool s), env := e'\<rparr>"
    and "(warr c' = hnext (env s) \<and> hnext e' = hnext (env s) + 1) \<or>
         (creaturePool s \<noteq> [] \<and> warr c' = warr (last (creaturePool s)) \<and> hnext e' = hnext (env s))"
    and "\<forall>a. a \<noteq> warr c' \<longrightarrow> heap e' a = heap (env s) a"
    and "backed (heap e') c'"
  shows "heap_fresh s'"
proof -
  define Q where "Q = butlast (creaturePool s)"
  have d: "distinct (map warr (creatures s @ creaturePool s))"
    and l: "\<And>c. c \<in> set (creatures s) \<or> c \<in> set (creaturePool s) \<Longrightarrow>
              warr c < hnext (env s) \<and> backed (heap (env s)) c"
    and b: "\<And>t. t \<in> set (bestCreatures s) \<Longrightarrow> arr (t_weights t) < hnext (env s)"
    using assms(1) by (auto simp: heap_fresh_def list_all_iff)
  have hn: "hnext (env s) \<le> hnext e'" using assms(3) by auto
  have subQ: "\<And>c. c \<in> set Q \<Longrightarrow> c \<in> set (creaturePool s)"
    unfolding Q_def by (rule in_set_butlastD)
  have lt: "warr c' < hnext e'"
  proof (cases "warr c' = hnext (env s) \<and> hnext e' = hnext (env s) + 1")
    case True
    then show ?thesis by simp
  next
    case False
    then have "creaturePool s \<noteq> []" "warr c' = warr (last (creaturePool s))"
      "hnext e' = hnext (env s)"
      using assms(3) by blast+
    then show ?thesis using l [of "last (creaturePool s)"] by simp
  qed
  have dQ: "distinct (map warr (creatures s @ Q))"
  proof (cases "creaturePool s" rule: rev_cases)
    case Nil
    then show ?thesis using d by (simp add: Q_def)
  next
    case (snoc qs q)
    then show ?thesis using d by (simp add: Q_def)
  qed
  have new: "warr c \<noteq> warr c'" if "c \<in> set (creatures s) \<or> c \<in> set Q" for c
  proof (cases "warr c' = hnext (env s) \<and> hnext e' = hnext (env s) + 1")
    case True
    have "c \<in> set (creatures s) \<or> c \<in> set (creaturePool s)" using that subQ by blast
    from l [OF this] True show ?thesis by simp
  next
    case False
    then have ne: "creaturePool s \<noteq> []" and w: "warr c' = warr (last (creaturePool s))"
      using assms(3) by blast+
    obtain q where P: "creaturePool s = Q @ [q]"
      using ne unfolding Q_def by (metis append_butlast_last_id)
    have w': "warr c' = warr q" using w P by simp
    have "distinct (map warr (creatures s) @ map warr Q @ [warr q])"
      using d unfolding P by simp
    then have "warr q \<notin> set (map warr (creatures s))" "warr q \<notin> set (map warr Q)"
      by simp_all
    then show ?thesis using that unfolding w' by (metis image_eqI set_map)
  qed
  have 1: "distinct (map warr ((creatures s @ [c']) @ Q))"
  proof -
    have "warr c' \<notin> set (map warr (creatures s))" "warr c' \<notin> set (map warr Q)"
      using new by (metis imageE set_map)+
    then show ?thesis using dQ by simp
  qed
  have 2: "warr c < hnext e' \<and> backed (heap e') c"
    if "c \<in> set ((creatures s @ [c']) @ Q)" for c
  proof (cases "c = c'")
    case True
    then show ?thesis using lt assms(5) by simp
  next
    case False
    then have c: "c \<in> set (creatures s) \<or> c \<in> set Q" using that by simp
    then have c2: "c \<in> set (creatures s) \<or> c \<in> set (creaturePool s)" using subQ by blast
    have "warr c \<noteq> warr c'" using new [OF c] .
    then have "heap e' (warr c) = heap (env s) (warr c)" using assms(4) by simp
    then show ?thesis using l [OF c2] hn by (simp add: backed_def)
  qed
  have 3: "arr (t_weights t) < hnext e'" if "t \<in> set (bestCreatures s)" for t
    using b [OF that] hn by simp
  have c: "creatures s' = creatures s @ [c']" "creaturePool s' = Q" "env s' = e'"
    "bestCreatures s' = bestCreatures s"
    by (simp_all add: assms(2) Q_def)
  show ?thesis
    unfolding heap_fresh_def c list_all_iff
    using 1 2 3 by (intro conjI ballI) blast+
qed

lemma spawned_facts:
  assumes "spawned k s t"
  shows "\<exists>cs. creatures t = creatures s @ cs \<and> length cs = k"
    "bestCreatures t = bestCreatures s" "rfloat (env t) = rfloat (env s)"
  using assms unfolding spawned_def by auto

lemma heap_fresh_last_new:
  assumes "heap_fresh t'" "creatures t' = cs @ [c']" "c \<in> set cs"
  shows "warr c \<noteq> warr c'"
proof -
  have "distinct (map warr cs @ [warr c'])"
    using assms(1) unfolding heap_fresh_def assms(2) by simp
  then have "warr c' \<notin> set (map warr cs)" by simp
  then show ?thesis using assms(3) by (metis image_eqI set_map)
qed

lemma clone_loop:
  assumes "sim_ok s" "heap_fresh s" "bestCreatures s \<noteq> []" "numWeights \<le> L"
  shows "\<exists>s1. for_loop 0 m (spawn_clone (length (bestCreatures s)) L) s = Inr (max 0 m, s1) \<and>
           spawned (nat m) s s1 \<and> heap_fresh s1 \<and>
           (\<forall>j<nat m.
              clone_of (heap (env s)) (bestCreatures s ! (j mod length (bestCreatures s))) L
                (heap (env s1)) (creatures s1 ! (length (creatures s) + j)))"
proof -
  define H0 where "H0 = hnext (env s)"
  define N0 where "N0 = length (creatures s)"
  define R where "R = (\<lambda>k (t::Sim). spawned k s t \<and> heap_fresh t \<and> hnext (env t) = H0 + k \<and>
     (\<forall>a<H0. heap (env t) a = heap (env s) a) \<and>
     (\<forall>j<k. warr (creatures t ! (N0 + j)) = H0 + j \<and>
        clone_of (heap (env s)) (bestCreatures s ! (j mod length (bestCreatures s))) L
          (heap (env t)) (creatures t ! (N0 + j))))"
  have b0: "\<And>t. t \<in> set (bestCreatures s) \<Longrightarrow> arr (t_weights t) < H0"
    using assms(2) by (simp add: heap_fresh_def list_all_iff H0_def)
  have "\<exists>s1. for_loop 0 m (spawn_clone (length (bestCreatures s)) L) s = Inr (max 0 m, s1) \<and>
           R (nat (m - 0)) s1"
  proof (rule for_loop_rel [where R = R])
    show "R 0 s"
      using assms(1,2) by (simp add: R_def spawned_0 sim_ok_def H0_def)
  next
    fix k t
    assume "k < nat (m - 0)" and r: "R k t"
    have sp: "spawned k s t" and hf: "heap_fresh t" and hn: "hnext (env t) = H0 + k"
      and old: "\<And>a. a < H0 \<Longrightarrow> heap (env t) a = heap (env s) a"
      and cl: "\<And>j. j < k \<Longrightarrow> warr (creatures t ! (N0 + j)) = H0 + j \<and>
        clone_of (heap (env s)) (bestCreatures s ! (j mod length (bestCreatures s))) L
          (heap (env t)) (creatures t ! (N0 + j))"
      using r unfolding R_def by blast+
    have ok: "sim_ok t" and bt: "bestCreatures t = bestCreatures s"
      and nt: "length (creatures t) = N0 + k"
      using spawned_sim_ok [OF assms(1) sp] by (simp_all add: N0_def)
    have bl: "list_all (\<lambda>x. arr (t_weights x) < hnext (env t)) (bestCreatures t)"
      using hf by (simp add: heap_fresh_def)
    have bne: "bestCreatures t \<noteq> []" using assms(3) bt by simp
    obtain c' e' where st: "spawn_clone (length (bestCreatures t)) L (int k) t
           = Inr (t\<lparr>creatures := creatures t @ [c'],
                    creaturePool := butlast (creaturePool t), env := e'\<rparr>)"
      and w: "allWeights (brain c') = \<lparr>arr = hnext (env t), off = 0, len = L, cap = L\<rparr>"
      and hn': "hnext e' = hnext (env t) + 1"
      and un: "\<And>a. a \<noteq> hnext (env t) \<Longrightarrow> heap e' a = heap (env t) a"
      and ln: "length (heap e' (hnext (env t))) = L"
      and c1: "clone_of (heap (env t)) (bestCreatures t ! (k mod length (bestCreatures t))) L
                 (heap e') c'"
      using spawn_clone_step [OF ok bne assms(4) bl, of k] by blast
    define t' where "t' = t\<lparr>creatures := creatures t @ [c'],
                    creaturePool := butlast (creaturePool t), env := e'\<rparr>"
    have wc: "warr c' = H0 + k" by (simp add: warr_def w hn)
    obtain u where "spawn_clone (length (bestCreatures t)) L (0 + int k) t = Inr u" "spawned 1 t u"
      using spawn_clone_spawned [OF ok bne _ assms(4), of "0 + int k"] by auto
    then have "spawned 1 t t'" using st by (simp add: t'_def)
    then have 1: "spawned (Suc k) s t'" using spawned_trans [OF sp, of 1 t'] by simp
    have 2: "heap_fresh t'"
    proof (rule heap_fresh_append [OF hf t'_def])
      show "warr c' = hnext (env t) \<and> hnext e' = hnext (env t) + 1 \<or>
            creaturePool t \<noteq> [] \<and> warr c' = warr (last (creaturePool t)) \<and> hnext e' = hnext (env t)"
        using wc hn hn' by simp
      show "\<forall>a. a \<noteq> warr c' \<longrightarrow> heap e' a = heap (env t) a"
        using un wc hn by simp
      show "backed (heap e') c'"
        using ln by (simp add: backed_def warr_def w)
    qed
    have 3: "hnext (env t') = H0 + Suc k" by (simp add: t'_def hn' hn)
    have 4: "\<forall>a<H0. heap (env t') a = heap (env s) a"
      using old un hn by (simp add: t'_def)
    have 5: "warr (creatures t' ! (N0 + j)) = H0 + j \<and>
        clone_of (heap (env s)) (bestCreatures s ! (j mod length (bestCreatures s))) L
          (heap (env t')) (creatures t' ! (N0 + j))" if "j < Suc k" for j
    proof (cases "j = k")
      case True
      have e: "creatures t' ! (N0 + j) = c'"
        using True nt by (simp add: t'_def nth_append)
      define tk where "tk = bestCreatures s ! (k mod length (bestCreatures s))"
      have "tk \<in> set (bestCreatures s)" using assms(3) by (simp add: tk_def)
      then have "arr (t_weights tk) < H0" by (rule b0)
      then have "weights_of (heap (env t)) (t_weights tk) = weights_of (heap (env s)) (t_weights tk)"
        by (intro weights_of_cong old)
      then have "clone_of (heap (env s)) tk L (heap e') c'"
        using c1 unfolding bt tk_def [symmetric] clone_of_def by simp
      then show ?thesis using True wc unfolding e tk_def by (simp add: t'_def)
    next
      case False
      then have jk: "j < k" using that by simp
      have e: "creatures t' ! (N0 + j) = creatures t ! (N0 + j)"
        using jk nt by (simp add: t'_def nth_append)
      define c where "c = creatures t ! (N0 + j)"
      have c: "warr c = H0 + j"
        "clone_of (heap (env s)) (bestCreatures s ! (j mod length (bestCreatures s))) L
          (heap (env t)) c"
        using cl [OF jk] by (simp_all add: c_def)
      have "heap e' (arr (allWeights (brain c))) = heap (env t) (arr (allWeights (brain c)))"
        using c(1) jk hn un by (simp add: warr_def)
      then have "weights_of (heap e') (allWeights (brain c))
                 = weights_of (heap (env t)) (allWeights (brain c))"
        by (rule weights_of_cong)
      then have "clone_of (heap (env s)) (bestCreatures s ! (j mod length (bestCreatures s))) L
          (heap e') c"
        using c(2) by (simp add: clone_of_def)
      then show ?thesis using c(1) unfolding e c_def [symmetric] by (simp add: t'_def)
    qed
    have "R (Suc k) t'" unfolding R_def using 1 2 3 4 5 by blast
    then show "\<exists>s'. spawn_clone (length (bestCreatures s)) L (0 + int k) t = Inr s' \<and> R (Suc k) s'"
      using st bt by (simp add: t'_def)
  qed
  then show ?thesis unfolding R_def N0_def by auto
qed

lemma random_loop:
  assumes "sim_ok s1" "heap_fresh s1"
  shows "\<exists>s2. for_loop i n (\<lambda>i. SpawnRandomCreature) s1 = Inr (max i n, s2) \<and>
           spawned (nat (n - i)) s1 s2 \<and> heap_fresh s2 \<and>
           (\<forall>c\<in>set (creatures s1). heap (env s2) (warr c) = heap (env s1) (warr c)) \<and>
           (\<forall>j<nat (n - i).
              random_weights (env s1) (heap (env s2)) (creatures s2 ! (length (creatures s1) + j)))"
proof -
  define N1 where "N1 = length (creatures s1)"
  define R where "R = (\<lambda>k (t::Sim). spawned k s1 t \<and> heap_fresh t \<and>
     (\<forall>c\<in>set (creatures s1). heap (env t) (warr c) = heap (env s1) (warr c)) \<and>
     (\<forall>j<k. random_weights (env s1) (heap (env t)) (creatures t ! (N1 + j))))"
  have "\<exists>s2. for_loop i n (\<lambda>i. SpawnRandomCreature) s1 = Inr (max i n, s2) \<and>
           R (nat (n - i)) s2"
  proof (rule for_loop_rel [where R = R])
    show "R 0 s1"
      using assms by (simp add: R_def spawned_0 sim_ok_def)
  next
    fix k t
    assume "k < nat (n - i)" and r: "R k t"
    have sp: "spawned k s1 t" and hf: "heap_fresh t"
      and keep: "\<And>c. c \<in> set (creatures s1) \<Longrightarrow> heap (env t) (warr c) = heap (env s1) (warr c)"
      and rw: "\<And>j. j < k \<Longrightarrow> random_weights (env s1) (heap (env t)) (creatures t ! (N1 + j))"
      using r unfolding R_def by blast+
    have ok: "sim_ok t" and nt: "length (creatures t) = N1 + k"
      using spawned_sim_ok [OF assms(1) sp] by (simp_all add: N1_def)
    obtain cs where cs: "creatures t = creatures s1 @ cs"
      using spawned_facts(1) [OF sp] by blast
    have rf: "rfloat (env t) = rfloat (env s1)" using spawned_facts(3) [OF sp] .
    have bp: "list_all (backed (heap (env t))) (creaturePool t)"
      using hf by (simp add: heap_fresh_def list_all_iff)
    obtain c' e' where st: "SpawnRandomCreature t
           = Inr (t\<lparr>creatures := creatures t @ [c'],
                    creaturePool := butlast (creaturePool t), env := e'\<rparr>)"
      and cases: "if creaturePool t = []
            then warr c' = hnext (env t) \<and> hnext e' = hnext (env t) + 1
            else allWeights (brain c') = allWeights (brain (last (creaturePool t))) \<and>
                 hnext e' = hnext (env t)"
      and un: "\<forall>a. a \<noteq> warr c' \<longrightarrow> heap e' a = heap (env t) a"
      and bk: "backed (heap e') c'"
      and wo: "weights_of (heap e') (allWeights (brain c'))
             = map (\<lambda>j. rfloat (env t) (rpos (env t) + j) * 2 - 1)
                 [0..<len (allWeights (brain c'))]"
      using SpawnRandomCreature_step [OF ok bp] by blast
    define t' where "t' = t\<lparr>creatures := creatures t @ [c'],
                    creaturePool := butlast (creaturePool t), env := e'\<rparr>"
    obtain u where "SpawnRandomCreature t = Inr u" "spawned 1 t u"
      using SpawnRandomCreature_spawned [OF ok] by blast
    then have "spawned 1 t t'" using st by (simp add: t'_def)
    then have 1: "spawned (Suc k) s1 t'" using spawned_trans [OF sp, of 1 t'] by simp
    have 2: "heap_fresh t'"
    proof (rule heap_fresh_append [OF hf t'_def _ un bk])
      show "warr c' = hnext (env t) \<and> hnext e' = hnext (env t) + 1 \<or>
            creaturePool t \<noteq> [] \<and> warr c' = warr (last (creaturePool t)) \<and> hnext e' = hnext (env t)"
        using cases by (cases "creaturePool t = []") (simp_all add: warr_def)
    qed
    have ct': "creatures t' = creatures t @ [c']" by (simp add: t'_def)
    have ne: "warr c \<noteq> warr c'" if "c \<in> set (creatures t)" for c
      by (rule heap_fresh_last_new [OF 2 ct' that])
    have 3: "\<forall>c\<in>set (creatures s1). heap (env t') (warr c) = heap (env s1) (warr c)"
    proof
      fix c assume c: "c \<in> set (creatures s1)"
      then have "c \<in> set (creatures t)" by (simp add: cs)
      then have "heap e' (warr c) = heap (env t) (warr c)" using ne un by simp
      then show "heap (env t') (warr c) = heap (env s1) (warr c)"
        using keep [OF c] by (simp add: t'_def)
    qed
    have 4: "random_weights (env s1) (heap (env t')) (creatures t' ! (N1 + j))" if "j < Suc k" for j
    proof (cases "j = k")
      case True
      have e: "creatures t' ! (N1 + j) = c'"
        using True nt by (simp add: t'_def nth_append)
      show ?thesis
        unfolding e random_weights_def
        by (rule exI [of _ "rpos (env t)"]) (simp add: t'_def wo rf)
    next
      case False
      then have jk: "j < k" using that by simp
      have e: "creatures t' ! (N1 + j) = creatures t ! (N1 + j)"
        using jk nt by (simp add: t'_def nth_append)
      define c where "c = creatures t ! (N1 + j)"
      have "c \<in> set (creatures t)" using jk nt by (simp add: c_def)
      then have "heap e' (arr (allWeights (brain c))) = heap (env t) (arr (allWeights (brain c)))"
        using ne [of c] un by (simp add: warr_def)
      then have "weights_of (heap e') (allWeights (brain c))
                 = weights_of (heap (env t)) (allWeights (brain c))"
        by (rule weights_of_cong)
      then show ?thesis
        using rw [OF jk] unfolding e c_def [symmetric] random_weights_def by (simp add: t'_def)
    qed
    have "R (Suc k) t'" unfolding R_def using 1 2 3 4 by blast
    then show "\<exists>s'. SpawnRandomCreature t = Inr s' \<and> R (Suc k) s'"
      using st by (simp add: t'_def)
  qed
  then show ?thesis unfolding R_def N1_def by auto
qed

lemma example_sim_hall_ok: "sim_ok example_sim_hall"
  by (simp add: sim_ok_def example_sim_hall_def example_sim_def NewSim_def creatureRadius_def
        numWeights_eq example_slice_def)

lemma example_sim_hall_fresh: "heap_fresh example_sim_hall"
  by (simp add: heap_fresh_def example_sim_hall_def example_sim_def NewSim_def example_env_def
        example_slice_def)

lemma example_sim_hall_facts:
  "bestCreatures example_sim_hall = [\<lparr>t_score = 5, t_weights = example_slice 7\<rparr>]"
  "creatures example_sim_hall = []"
  "heap (env example_sim_hall) = example_heap"
  "rfloat (env example_sim_hall) = (\<lambda>_. 1 / 4)"
  by (simp_all add: example_sim_hall_def example_sim_def NewSim_def example_env_def)

lemma clone_of_example:
  assumes "clone_of example_heap \<lparr>t_score = 5, t_weights = example_slice 7\<rparr> 950 h c"
  shows "weights_of h (allWeights (brain c)) = replicate 950 7"
proof -
  have l: "length (weights_of h (allWeights (brain c))) = 950"
    using assms by (simp add: clone_of_def weights_of_def)
  have "take 950 (weights_of h (allWeights (brain c))) = replicate 950 7"
    using assms by (simp add: clone_of_def example_slice_def [of 7, THEN arg_cong [where f = len]])
  then show ?thesis using l by simp
qed

lemma random_weights_example:
  assumes "random_weights e h c" "rfloat e = (\<lambda>_. 1 / 4)"
  shows "weights_of h (allWeights (brain c)) = replicate (len (allWeights (brain c))) (- 1 / 2)"
  using assms by (auto simp: random_weights_def map_replicate_const)


text \<open>
  Claim C8: with a non-empty hall of fame and a request \<open>n \<ge> 0\<close>, in a simulation that
  satisfies the running invariant, \<open>SpawnCreatures n\<close> is the clone loop for
  \<open>i = 0, ..., max(1, n/2) - 1\<close> followed by the random loop up to \<open>n\<close>; the crossover
  loop, started at \<open>i = max(1, n/2)\<close> with bound \<open>n/4\<close>, runs no iteration whatever its
  body; both loops succeed, the clone loop adds \<open>max(1, n/2)\<close> creatures and the random
  loop \<open>n - max(1, n/2)\<close> (none when that is negative), so \<open>n\<close> creatures are spawned
  for \<open>n \<ge> 1\<close> and one for \<open>n = 0\<close>. When backing arrays are allocated as Go allocates
  them (\<open>heap_fresh\<close>; every reachable state is so, lemma \<open>reachable_heap_fresh\<close>), the
  \<open>j\<close>-th creature appended, \<open>j < max(1, n/2)\<close>, is a clone of hall-of-fame entry \<open>j mod\<close>
  hall size: after the whole call its weight slice has the length of entry 0 and holds
  the weights that entry had when the call began, as \<^verbatim>\<open>copy\<close> transfers them; each of the
  creatures appended after the clones holds weights drawn from the random source,
  \<open>rand.Float64() * 2 - 1\<close> each.
\<close>

theorem SpawnCreatures_clones_and_random:
  assumes "sim_ok s" "bestCreatures s \<noteq> []" "0 \<le> n"
  shows "SpawnCreatures n s = SpawnCreatures_clones_then_random n s \<and>
         for_loop (max 1 (n div 2)) (go_div n 4) body os = Inr (max 1 (n div 2), os) \<and>
         (\<exists>s1 s2.
            for_loop 0 (max 1 (n div 2))
              (spawn_clone (length (bestCreatures s)) (len (t_weights (bestCreatures s ! 0)))) s
              = Inr (max 1 (n div 2), s1) \<and>
            length (creatures s1) = length (creatures s) + nat (max 1 (n div 2)) \<and>
            for_loop (max 1 (n div 2)) n (\<lambda>i. SpawnRandomCreature) s1
              = Inr (max (max 1 (n div 2)) n, s2) \<and>
            length (creatures s2) = length (creatures s1) + nat (n - max 1 (n div 2)) \<and>
            SpawnCreatures n s = Inr s2 \<and>
            length (creatures s2) = length (creatures s) + (if n = 0 then 1 else nat n) \<and>
            (heap_fresh s \<longrightarrow>
               (\<forall>j<nat (max 1 (n div 2)).
                  clone_of (heap (env s)) (bestCreatures s ! (j mod length (bestCreatures s)))
                    (len (t_weights (bestCreatures s ! 0)))
                    (heap (env s2)) (creatures s2 ! (length (creatures s) + j))) \<and>
               (\<forall>j<nat (n - max 1 (n div 2)).
                  random_weights (env s) (heap (env s2))
                    (creatures s2 ! (length (creatures s) + nat (max 1 (n div 2)) + j)))))"
proof -
  define k where "k = max 1 (n div 2)"
  define lw where "lw = len (t_weights (bestCreatures s ! 0))"
  have lw: "numWeights \<le> lw"
    using assms(1,2) by (cases "bestCreatures s") (auto simp: sim_ok_def lw_def)
  obtain s1 where s1: "for_loop 0 k (spawn_clone (length (bestCreatures s)) lw) s = Inr (max 0 k, s1)"
    "spawned (nat (k - 0)) s s1"
    using spawn_clone_loop [OF assms(1,2), of 0 lw k] lw by auto
  have ok1: "sim_ok s1" and n1: "length (creatures s1) = length (creatures s) + nat k"
    using spawned_sim_ok [OF assms(1) s1(2)] by simp_all
  obtain s2 where s2: "for_loop k n (\<lambda>i. SpawnRandomCreature) s1 = Inr (max k n, s2)"
    "spawned (nat (n - k)) s1 s2"
    using SpawnRandomCreature_loop [OF ok1, of k n] by blast
  have n2: "length (creatures s2) = length (creatures s1) + nat (n - k)"
    using spawned_sim_ok [OF ok1 s2(2)] by simp
  have eq: "SpawnCreatures n s = SpawnCreatures_clones_then_random n s"
    by (rule SpawnCreatures_hall [OF assms(2,3)])
  have "idx (bestCreatures s) 0 = Inr (bestCreatures s ! 0)" using assms(2) by simp
  then have "SpawnCreatures_clones_then_random n s
      = rbind (for_loop 0 k (spawn_clone (length (bestCreatures s)) lw) s) (\<lambda>(i, s).
        rbind (for_loop k n (\<lambda>i. SpawnRandomCreature) s) (\<lambda>(i, s). Inr s))"
    unfolding SpawnCreatures_clones_then_random_def k_def lw_def by simp
  then have r: "SpawnCreatures n s = Inr s2"
    by (simp add: eq s1(1) s2(1))
  have tot: "nat k + nat (n - k) = (if n = 0 then 1 else nat n)"
    using assms(3) by (auto simp: k_def max_def)
  have q: "go_div n 4 \<le> k" using assms(3) by (simp add: k_def)
  have k0: "max 0 k = k" by (simp add: k_def)
  have w: "(\<forall>j<nat k.
              clone_of (heap (env s)) (bestCreatures s ! (j mod length (bestCreatures s))) lw
                (heap (env s2)) (creatures s2 ! (length (creatures s) + j))) \<and>
           (\<forall>j<nat (n - k).
              random_weights (env s) (heap (env s2))
                (creatures s2 ! (length (creatures s) + nat k + j)))"
    if hf: "heap_fresh s"
  proof -
    obtain t1 where t1: "for_loop 0 k (spawn_clone (length (bestCreatures s)) lw) s = Inr (max 0 k, t1)"
      and hf1: "heap_fresh t1"
      and cl: "\<And>j. j < nat k \<Longrightarrow>
              clone_of (heap (env s)) (bestCreatures s ! (j mod length (bestCreatures s))) lw
                (heap (env t1)) (creatures t1 ! (length (creatures s) + j))"
      using clone_loop [OF assms(1) hf assms(2) lw, of k] by blast
    have e1: "t1 = s1" using t1 s1(1) by simp
    obtain t2 where t2: "for_loop k n (\<lambda>i. SpawnRandomCreature) s1 = Inr (max k n, t2)"
      and keep: "\<And>c. c \<in> set (creatures s1) \<Longrightarrow> heap (env t2) (warr c) = heap (env s1) (warr c)"
      and rw: "\<And>j. j < nat (n - k) \<Longrightarrow>
              random_weights (env s1) (heap (env t2)) (creatures t2 ! (length (creatures s1) + j))"
      using random_loop [OF ok1 hf1 [unfolded e1], of k n] by blast
    have e2: "t2 = s2" using t2 s2(1) by simp
    obtain cs where cs: "creatures s2 = creatures s1 @ cs"
      using spawned_facts(1) [OF s2(2)] by blast
    have rf: "rfloat (env s1) = rfloat (env s)" using spawned_facts(3) [OF s1(2)] .
    have a: "clone_of (heap (env s)) (bestCreatures s ! (j mod length (bestCreatures s))) lw
                (heap (env s2)) (creatures s2 ! (length (creatures s) + j))" if j: "j < nat k" for j
    proof -
      define c where "c = creatures s1 ! (length (creatures s) + j)"
      have in1: "length (creatures s) + j < length (creatures s1)" using j n1 by simp
      then have c1: "c \<in> set (creatures s1)" by (simp add: c_def)
      have e: "creatures s2 ! (length (creatures s) + j) = c"
        using in1 by (simp add: cs nth_append c_def)
      have "heap (env s2) (arr (allWeights (brain c))) = heap (env s1) (arr (allWeights (brain c)))"
        using keep [OF c1] by (simp add: warr_def e2)
      then have "weights_of (heap (env s2)) (allWeights (brain c))
                 = weights_of (heap (env s1)) (allWeights (brain c))"
        by (rule weights_of_cong)
      then show ?thesis
        using cl [OF j] unfolding e e1 c_def [symmetric] by (simp add: clone_of_def)
    qed
    have b: "random_weights (env s) (heap (env s2))
                (creatures s2 ! (length (creatures s) + nat k + j))" if j: "j < nat (n - k)" for j
      using rw [OF j] unfolding e2 n1 random_weights_def rf .
    show ?thesis using a b by blast
  qed
  show ?thesis
    unfolding k_def [symmetric] lw_def [symmetric]
    using eq q s1(1) n1 s2(1) n2 r tot w unfolding k0 by auto
qed

theorem SpawnCreatures_clones_and_random_witness:
  "sim_ok example_sim_hall \<and> heap_fresh example_sim_hall \<and>
   bestCreatures example_sim_hall = [\<lparr>t_score = 5, t_weights = example_slice 7\<rparr>] \<and>
   weights_of (heap (env example_sim_hall)) (example_slice 7) = replicate 950 7 \<and>
   (\<exists>s'. SpawnCreatures 10 example_sim_hall = Inr s' \<and> length (creatures s') = 10 \<and>
      list_all (\<lambda>j. weights_of (heap (env s')) (allWeights (brain (creatures s' ! j)))
                     = replicate 950 7) [0..<5] \<and>
      list_all (\<lambda>j. weights_of (heap (env s')) (allWeights (brain (creatures s' ! j)))
                     = replicate (len (allWeights (brain (creatures s' ! j)))) (- 1 / 2)) [5..<10]) \<and>
   (\<exists>s'. SpawnCreatures 0 example_sim_hall = Inr s' \<and> length (creatures s') = 1 \<and>
      weights_of (heap (env s')) (allWeights (brain (creatures s' ! 0))) = replicate 950 7)"
proof -
  note f = example_sim_hall_facts
  have b: "bestCreatures example_sim_hall \<noteq> []" by (simp add: f)
  have L: "len (t_weights (bestCreatures example_sim_hall ! 0)) = 950"
    by (simp add: f example_slice_def)
  have p10: "(0::int) \<le> 10" and p0: "(0::int) \<le> 0" by simp_all
  obtain s10 where r10: "SpawnCreatures 10 example_sim_hall = Inr s10"
    and n10: "length (creatures s10) = length (creatures example_sim_hall) + (if (10::int) = 0 then 1 else nat 10)"
    and c10: "\<And>j. j < nat (max 1 (10 div 2)) \<Longrightarrow>
        clone_of (heap (env example_sim_hall))
          (bestCreatures example_sim_hall ! (j mod length (bestCreatures example_sim_hall)))
          (len (t_weights (bestCreatures example_sim_hall ! 0))) (heap (env s10))
          (creatures s10 ! (length (creatures example_sim_hall) + j))"
    and w10: "\<And>j. j < nat (10 - max 1 (10 div 2)) \<Longrightarrow>
        random_weights (env example_sim_hall) (heap (env s10))
          (creatures s10 ! (length (creatures example_sim_hall) + nat (max 1 (10 div 2)) + j))"
    using SpawnCreatures_clones_and_random [OF example_sim_hall_ok b p10, THEN conjunct2, THEN conjunct2]
      example_sim_hall_fresh by blast
  have a10: "weights_of (heap (env s10)) (allWeights (brain (creatures s10 ! j))) = replicate 950 7"
    if "j < 5" for j
    using c10 [of j] that unfolding L by (simp add: f clone_of_example)
  have b10: "weights_of (heap (env s10)) (allWeights (brain (creatures s10 ! (5 + j))))
      = replicate (len (allWeights (brain (creatures s10 ! (5 + j))))) (- 1 / 2)"
    if "j < 5" for j
    using w10 [of j] that random_weights_example [OF _ f(4)] by (simp add: f)
  have b10': "weights_of (heap (env s10)) (allWeights (brain (creatures s10 ! j)))
      = replicate (len (allWeights (brain (creatures s10 ! j)))) (- 1 / 2)"
    if "5 \<le> j" "j < 10" for j
    using b10 [of "j - 5"] that by simp
  have 1: "\<exists>s'. SpawnCreatures 10 example_sim_hall = Inr s' \<and> length (creatures s') = 10 \<and>
      list_all (\<lambda>j. weights_of (heap (env s')) (allWeights (brain (creatures s' ! j)))
                     = replicate 950 7) [0..<5] \<and>
      list_all (\<lambda>j. weights_of (heap (env s')) (allWeights (brain (creatures s' ! j)))
                     = replicate (len (allWeights (brain (creatures s' ! j)))) (- 1 / 2)) [5..<10]"
  proof (rule exI [of _ s10], intro conjI)
    show "SpawnCreatures 10 example_sim_hall = Inr s10" by (rule r10)
    show "length (creatures s10) = 10" using n10 by (simp add: f)
    show "list_all (\<lambda>j. weights_of (heap (env s10)) (allWeights (brain (creatures s10 ! j)))
                     = replicate 950 7) [0..<5]"
      unfolding list_all_iff using a10 by simp
    show "list_all (\<lambda>j. weights_of (heap (env s10)) (allWeights (brain (creatures s10 ! j)))
                     = replicate (len (allWeights (brain (creatures s10 ! j)))) (- 1 / 2)) [5..<10]"
      unfolding list_all_iff using b10' by simp
  qed
  obtain s0 where r0: "SpawnCreatures 0 example_sim_hall = Inr s0"
    and n0: "length (creatures s0) = length (creatures example_sim_hall) + (if (0::int) = 0 then 1 else nat 0)"
    and c0: "\<And>j. j < nat (max 1 (0 div 2)) \<Longrightarrow>
        clone_of (heap (env example_sim_hall))
          (bestCreatures example_sim_hall ! (j mod length (bestCreatures example_sim_hall)))
          (len (t_weights (bestCreatures example_sim_hall ! 0))) (heap (env s0))
          (creatures s0 ! (length (creatures example_sim_hall) + j))"
    using SpawnCreatures_clones_and_random [OF example_sim_hall_ok b p0, THEN conjunct2, THEN conjunct2]
      example_sim_hall_fresh by blast
  have "weights_of (heap (env s0)) (allWeights (brain (creatures s0 ! 0))) = replicate 950 7"
    using c0 [of 0] unfolding L by (simp add: f clone_of_example)
  then have 2: "\<exists>s'. SpawnCreatures 0 example_sim_hall = Inr s' \<and> length (creatures s') = 1 \<and>
      weights_of (heap (env s')) (allWeights (brain (creatures s' ! 0))) = replicate 950 7"
    using r0 n0 by (simp add: f)
  show ?thesis
    using example_sim_hall_ok example_sim_hall_fresh 1 2 by (simp add: f)
qed

text \<open>
  Claim C1 says that a recycled creature is indistinguishable from a fresh one: score 0,
  and no effect on a hall-of-fame entry recorded when it died. The code does otherwise.
  \<^verbatim>\<open>SpawnRandomCreature\<close> on a non-empty pool succeeds and the creature it appends keeps
  the score and the brain memory (\<^verbatim>\<open>output\<close>) it died with; a fresh creature has score 0
  and zero memory (\<open>SpawnRandomCreature_fresh\<close>). The death pass stores the slice
  \<^verbatim>\<open>GetWeights()\<close> returns in the hall of fame, and \<^verbatim>\<open>RandomizeWeights\<close> writes through
  that slice: every hall-of-fame entry that holds the recycled creature's weight slice
  shows the new random weights afterwards.
\<close>

theorem SpawnRandomCreature_recycled_keeps_score:
  assumes "creaturePool s \<noteq> []" "creatureRadius < width s" "creatureRadius < height s"
    and "t \<in> set (bestCreatures s)"
    and "t_weights t = GetWeights (brain (last (creaturePool s)))"
    and "off (t_weights t) + len (t_weights t) \<le> length (heap (env s) (arr (t_weights t)))"
  shows "\<exists>s'. SpawnRandomCreature s = Inr s' \<and>
           score (last (creatures s')) = score (last (creaturePool s)) \<and>
           b_output (brain (last (creatures s'))) = b_output (brain (last (creaturePool s))) \<and>
           t \<in> set (bestCreatures s') \<and>
           weights_of (heap (env s')) (t_weights t)
             = map (\<lambda>j. rfloat (env s) (rpos (env s) + j) * 2 - 1) [0..<len (t_weights t)]"
proof -
  define aw where "aw = allWeights (brain (last (creaturePool s)))"
  have tw: "t_weights t = aw" using assms(5) by (simp add: GetWeights_def aw_def)
  obtain col where eq: "SpawnRandomCreature s
     = Inr (s\<lparr>creatures := creatures s @
               [(last (creaturePool s))
                  \<lparr>color := col,
                   c_x := spawn_x s (rpos (env s) + len aw),
                   c_y := spawn_y s (rpos (env s) + len aw),
                   c_angle := spawn_angle s (rpos (env s) + len aw)\<rparr>],
              creaturePool := butlast (creaturePool s),
              env := (env s)
                \<lparr>heap := (heap (env s))(arr aw :=
                    rand_fill (env s) (off aw) (len aw) (heap (env s) (arr aw))),
                 rpos := rpos (env s) + len aw + 3\<rparr>\<rparr>)"
    using SpawnRandomCreature_recycle [OF assms(1,2,3)] unfolding aw_def by blast
  have "slice_nth ((heap (env s))(arr aw :=
                    rand_fill (env s) (off aw) (len aw) (heap (env s) (arr aw)))) aw j
        = rfloat (env s) (rpos (env s) + j) * 2 - 1" if "j < len aw" for j
    using that assms(6) unfolding tw by (simp add: slice_nth_def nth_rand_fill)
  then have "weights_of ((heap (env s))(arr aw :=
                    rand_fill (env s) (off aw) (len aw) (heap (env s) (arr aw)))) aw
        = map (\<lambda>j. rfloat (env s) (rpos (env s) + j) * 2 - 1) [0..<len aw]"
    unfolding weights_of_def by (intro map_cong) simp_all
  then show ?thesis
    using assms(4) by (simp add: eq tw)
qed

lemma example_dead_ok: "creature_ok example_dead"
  using example_brain_ok
  by (simp add: creature_ok_def example_dead_def numWeights_eq example_weights_def
        example_slice_def)

lemma example_sim_pool_ok: "sim_ok example_sim_pool"
  using example_dead_ok
  by (simp add: sim_ok_def example_sim_pool_def example_sim_def NewSim_def creatureRadius_def
        GetWeights_def numWeights_eq numBrainInputs_def)
     (simp add: example_dead_def example_weights_def example_slice_def)

theorem SpawnRandomCreature_recycled_keeps_score_witness:
  "creaturePool example_sim_pool \<noteq> [] \<and>
   weights_of (heap (env example_sim_pool)) (t_weights (hd (bestCreatures example_sim_pool)))
     = replicate 950 0 \<and>
   (\<exists>s'. SpawnRandomCreature example_sim_pool = Inr s' \<and>
      score (last (creatures s')) = 7 \<and>
      hd (bestCreatures s') = \<lparr>t_score = 7, t_weights = example_weights\<rparr> \<and>
      weights_of (heap (env s')) (t_weights (hd (bestCreatures s'))) = replicate 950 (- 1 / 2))"
proof -
  define t where "t = \<lparr>t_score = 7, t_weights = example_weights\<rparr>"
  have p: "creaturePool example_sim_pool \<noteq> []"
    "creatureRadius < width example_sim_pool" "creatureRadius < height example_sim_pool"
    "t \<in> set (bestCreatures example_sim_pool)"
    "t_weights t = GetWeights (brain (last (creaturePool example_sim_pool)))"
    "off (t_weights t) + len (t_weights t)
       \<le> length (heap (env example_sim_pool) (arr (t_weights t)))"
    by (simp_all add: example_sim_pool_def example_sim_def NewSim_def creatureRadius_def t_def
          example_dead_def GetWeights_def example_env_def example_heap_def
          example_weights_def example_slice_def)
  have b: "bestCreatures example_sim_pool = [t]"
    by (simp add: example_sim_pool_def t_def example_dead_def GetWeights_def)
  have m: "map (\<lambda>j. rfloat (env example_sim_pool) (rpos (env example_sim_pool) + j) * 2 - 1)
             [0..<len (t_weights t)] = replicate 950 (- 1 / 2)"
    by (simp add: example_sim_pool_def example_sim_def NewSim_def example_env_def t_def
          example_weights_def example_slice_def map_replicate_const)
  have w0: "weights_of (heap (env example_sim_pool)) (t_weights (hd (bestCreatures example_sim_pool)))
     = replicate 950 0"
    using weights_of_example_slice [of 0]
    by (simp add: example_sim_pool_def example_sim_def NewSim_def example_env_def
          example_weights_def example_dead_def GetWeights_def)
  obtain s' where s': "SpawnRandomCreature example_sim_pool = Inr s'"
    "score (last (creatures s')) = score (last (creaturePool example_sim_pool))"
    "t \<in> set (bestCreatures s')"
    "weights_of (heap (env s')) (t_weights t)
             = map (\<lambda>j. rfloat (env example_sim_pool) (rpos (env example_sim_pool) + j) * 2 - 1)
                 [0..<len (t_weights t)]"
    using SpawnRandomCreature_recycled_keeps_score [OF p] by blast
  have "spawned 1 example_sim_pool s'"
    using SpawnRandomCreature_spawned [OF example_sim_pool_ok] s'(1) by simp
  then have b': "bestCreatures s' = [t]"
    using b by (auto simp: spawned_def)
  have "score (last (creatures s')) = 7"
    using s'(2) by (simp add: example_sim_pool_def example_dead_def)
  moreover have "hd (bestCreatures s') = \<lparr>t_score = 7, t_weights = example_weights\<rparr>"
    by (simp add: b' t_def)
  moreover have "weights_of (heap (env s')) (t_weights (hd (bestCreatures s'))) = replicate 950 (- 1 / 2)"
    using s'(4) m by (simp add: b')
  ultimately show ?thesis using p(1) w0 s'(1) by blast
qed

lemma ray_march_hit:
  "x < frameWidthf s \<Longrightarrow> 0 \<le> x \<Longrightarrow> y < frameHeightf s \<Longrightarrow> 0 \<le> y \<Longrightarrow>
   frame s (go_int x) (go_int y) \<Longrightarrow> ray_march s c ax ay x y = Some (xyDist (c_x c) (c_y c) x y)"
  by (subst ray_march.simps) simp

lemma ray_march_miss:
  "x < frameWidthf s \<Longrightarrow> 0 \<le> x \<Longrightarrow> y < frameHeightf s \<Longrightarrow> 0 \<le> y \<Longrightarrow>
   \<not> frame s (go_int x) (go_int y) \<Longrightarrow> ray_march s c ax ay x y = ray_march s c ax ay (x + ax) (y + ay)"
  by (subst ray_march.simps) simp

lemma ray_march_out:
  "\<not> (x < frameWidthf s \<and> 0 \<le> x \<and> y < frameHeightf s \<and> 0 \<le> y) \<Longrightarrow>
   ray_march s c ax ay x y = Some MaxFloat64"
  by (subst ray_march.simps) auto

lemma xyDist_le_iff: "0 \<le> r \<Longrightarrow> xyDist x y p q \<le> r \<longleftrightarrow> (x - p)\<^sup>2 + (y - q)\<^sup>2 \<le> r\<^sup>2"
  unfolding xyDist_def by (metis real_sqrt_le_iff real_sqrt_abs abs_of_nonneg)

lemma creature_deadI:
  assumes "go_int (borderWidthf s + c_x c) - creatureRadius \<le> cx"
    "cx \<le> go_int (borderWidthf s + c_x c) + creatureRadius"
    "go_int (borderWidthf s + c_y c) - creatureRadius \<le> cy"
    "cy \<le> go_int (borderWidthf s + c_y c) + creatureRadius"
    "(borderWidthf s + c_x c - real_of_int cx)\<^sup>2 + (borderWidthf s + c_y c - real_of_int cy)\<^sup>2
       \<le> creatureRadiusf\<^sup>2"
    "frame s cx cy"
  shows "creature_dead s c"
proof -
  have "xyDist (borderWidthf s + c_x c) (borderWidthf s + c_y c) (real_of_int cx) (real_of_int cy)
        \<le> creatureRadiusf"
    using assms(5) by (subst xyDist_le_iff) (simp_all add: creatureRadiusf_def creatureRadius_def)
  then show ?thesis
    unfolding creature_dead_def Let_def list_ex_iff
    using assms(1-4,6) by (intro bexI [of _ cy] bexI [of _ cx] conjI) simp_all
qed

text \<open>
  Claim C5 says that for a creature one unit away from an obstacle stroke and facing it,
  the ray aligned with its heading measures about 1 and the death check at that position
  is true. The death check samples the frame around
  \<open>(borderWidthf + c.x, borderWidthf + c.y)\<close>, where obstacles and creatures are drawn;
  \<^verbatim>\<open>DistanceToNearest\<close> starts its ray at \<open>(c.x, c.y)\<close> without the border offset. For
  the creature one unit left of the stroke the death check is true and the ray measures
  17, the border width more than the claimed distance.
\<close>

theorem DistanceToNearest_misses_border_offset:
  "DistanceToNearest example_sim_stroke example_creature 0 = Some 17 \<and>
   creature_dead example_sim_stroke example_creature \<and>
   borderWidthf example_sim_stroke + c_x example_creature = 116 \<and>
   \<not> frame example_sim_stroke 116 116 \<and> frame example_sim_stroke 117 116"
proof -
  have s: "frameWidthf example_sim_stroke = 437" "frameHeightf example_sim_stroke = 752"
    "frame example_sim_stroke = example_frame" "borderWidthf example_sim_stroke = 16"
    by (simp_all add: example_sim_stroke_def example_sim_def NewSim_def)
  have c: "c_x example_creature = 100" "c_y example_creature = 100" "c_angle example_creature = 0"
    by (simp_all add: example_creature_def)
  have miss: "ray_march example_sim_stroke example_creature 1 0 (real_of_int x) 100
        = ray_march example_sim_stroke example_creature 1 0 (real_of_int (x + 1)) 100"
    if "16 \<le> x" "x < 117" for x
    using that by (subst ray_march_miss) (simp_all add: s go_int_def example_frame_def)
  have run: "ray_march example_sim_stroke example_creature 1 0 (real_of_int x) 100
        = ray_march example_sim_stroke example_creature 1 0 (real_of_int (x + int n)) 100"
    if "16 \<le> x" "x + int n \<le> 117" for x n
    using that
  proof (induction n arbitrary: x)
    case 0
    then show ?case by simp
  next
    case (Suc n)
    have "ray_march example_sim_stroke example_creature 1 0 (real_of_int x) 100
        = ray_march example_sim_stroke example_creature 1 0 (real_of_int (x + 1)) 100"
      using Suc.prems by (intro miss) simp_all
    also have "\<dots> = ray_march example_sim_stroke example_creature 1 0
                        (real_of_int (x + 1 + int n)) 100"
      using Suc.prems by (intro Suc.IH) simp_all
    finally show ?case by (simp add: add.commute add.left_commute)
  qed
  have "ray_march example_sim_stroke example_creature 1 0 (real_of_int 101) 100
        = ray_march example_sim_stroke example_creature 1 0 (real_of_int 117) 100"
    using run [of 101 16] by simp
  moreover have "ray_march example_sim_stroke example_creature 1 0 (real_of_int 117) 100
        = Some (xyDist 100 100 (real_of_int 117) 100)"
    by (subst ray_march_hit) (simp_all add: s c go_int_def example_frame_def)
  moreover have "xyDist 100 100 (real_of_int 117) 100 = 17"
    by (simp add: xyDist_def)
  ultimately have d: "DistanceToNearest example_sim_stroke example_creature 0 = Some 17"
    by (simp add: DistanceToNearest_def c)
  have dead: "creature_dead example_sim_stroke example_creature"
    by (rule creature_deadI [where cx = 117 and cy = 116])
       (simp_all add: s c go_int_def creatureRadius_def creatureRadiusf_def example_frame_def)
  show ?thesis
    using d dead by (simp add: s c example_frame_def)
qed

lemma forM_preserves:
  assumes "forM ns body s = Inr s'" "I s"
    and "\<And>i s s'. i \<in> set ns \<Longrightarrow> I s \<Longrightarrow> body i s = Inr s' \<Longrightarrow> I s'"
  shows "I s'"
  using assms
proof (induction ns arbitrary: s)
  case Nil
  then show ?case by simp
next
  case (Cons i ns)
  from Cons.prems(1) obtain s1 where s1: "body i s = Inr s1" "forM ns body s1 = Inr s'"
    by (auto simp: rbind_eq_Inr)
  have "I s1" using Cons.prems(3) [of i s s1] Cons.prems(2) s1(1) by simp
  show ?case
  proof (rule Cons.IH [OF s1(2) \<open>I s1\<close>])
    fix j t t' assume "j \<in> set ns" "I t" "body j t = Inr t'"
    then show "I t'" using Cons.prems(3) [of j t t'] by simp
  qed
qed

lemma for_loop_preserves:
  assumes "for_loop i n body s = Inr (j, s')" "I s"
    and "\<And>i s s'. I s \<Longrightarrow> body i s = Inr s' \<Longrightarrow> I s'"
  shows "I s'"
  using assms
proof (induction i n body s rule: for_loop.induct)
  case (1 i n body s)
  show ?case
  proof (cases "i < n")
    case True
    then obtain s1 where s1: "body i s = Inr s1" "for_loop (i + 1) n body s1 = Inr (j, s')"
      using 1(2) by (auto simp: for_loop_step rbind_eq_Inr)
    have "I s1" by (rule 1(4) [OF 1(3) s1(1)])
    show ?thesis
      by (rule 1(1) [OF True s1(1) s1(2) \<open>I s1\<close>]) (rule 1(4))
  next
    case False
    then show ?thesis using 1(2,3) by simp
  qed
qed

lemma creature_dead_cong:
  "frame s' = frame s \<Longrightarrow> borderWidthf s' = borderWidthf s \<Longrightarrow>
   creature_dead s' c = creature_dead s c"
  by (simp add: creature_dead_def)

lemma filter_drop_dead:
  "i < length cs \<Longrightarrow> \<not> P (cs ! i) \<Longrightarrow> filter P (drop i cs) = filter P (drop (Suc i) cs)"
  by (simp add: Cons_nth_drop_Suc [symmetric])

lemma filter_drop_alive:
  "i < length cs \<Longrightarrow> P (cs ! i) \<Longrightarrow>
   take (Suc i) cs @ filter P (drop (Suc i) cs) = take i cs @ filter P (drop i cs)"
  by (simp add: Cons_nth_drop_Suc [symmetric] take_Suc_conv_app_nth)

lemma death_loop_frame:
  "death_loop i s = s\<lparr>creatures := creatures (death_loop i s),
                         creaturePool := creaturePool (death_loop i s),
                         bestCreatures := bestCreatures (death_loop i s)\<rparr>"
proof (induction i s rule: death_loop.induct)
  case (1 i s)
  show ?case
  proof (cases "i < length (creatures s)")
    case False
    then have "death_loop i s = s" by (subst death_loop.simps) simp
    then show ?thesis by simp
  next
    case True
    show ?thesis
    proof (cases "creature_dead s (creatures s ! i)")
      case dead: True
      have e: "death_loop i s = death_loop i (bury i s)"
        using True dead by (subst death_loop.simps) simp
      define D where "D = death_loop i (bury i s)"
      have b: "(bury i s)\<lparr>creatures := X, creaturePool := Y, bestCreatures := Z\<rparr>
                 = s\<lparr>creatures := X, creaturePool := Y, bestCreatures := Z\<rparr>" for X Y Z
        by (simp add: bury_def)
      have "D = (bury i s)\<lparr>creatures := creatures D, creaturePool := creaturePool D,
                               bestCreatures := bestCreatures D\<rparr>"
        using 1(1) [OF True dead] unfolding D_def .
      then have "D = s\<lparr>creatures := creatures D, creaturePool := creaturePool D,
                               bestCreatures := bestCreatures D\<rparr>"
        unfolding b .
      then show ?thesis unfolding e D_def .
    next
      case alive: False
      have e: "death_loop i s = death_loop (i + 1) s"
        using True alive by (subst death_loop.simps) simp
      show ?thesis using 1(2) [OF True alive] unfolding e .
    qed
  qed
qed

lemma death_loop_creatures:
  "creatures (death_loop i s)
   = take i (creatures s) @ filter (\<lambda>c. \<not> creature_dead s c) (drop i (creatures s))"
proof (induction i s rule: death_loop.induct)
  case (1 i s)
  show ?case
  proof (cases "i < length (creatures s)")
    case False
    then have "death_loop i s = s" by (subst death_loop.simps) simp
    then show ?thesis using False by simp
  next
    case True
    show ?thesis
    proof (cases "creature_dead s (creatures s ! i)")
      case dead: True
      have e: "death_loop i s = death_loop i (bury i s)"
        using True dead by (subst death_loop.simps) simp
      have c1: "creatures (bury i s) = take i (creatures s) @ drop (Suc i) (creatures s)"
        by (simp add: bury_def)
      have cd: "creature_dead (bury i s) = creature_dead s"
        by (rule ext) (simp add: creature_dead_def bury_def)
      have t: "take i (creatures (bury i s)) = take i (creatures s)"
        "drop i (creatures (bury i s)) = drop (Suc i) (creatures s)"
        using True by (simp_all add: c1)
      have f: "filter (\<lambda>c. \<not> creature_dead s c) (drop (Suc i) (creatures s))
               = filter (\<lambda>c. \<not> creature_dead s c) (drop i (creatures s))"
        using filter_drop_dead [OF True, of "\<lambda>c. \<not> creature_dead s c"] dead by simp
      show ?thesis
        unfolding e 1(1) [OF True dead] t cd f ..
    next
      case alive: False
      have e: "death_loop i s = death_loop (i + 1) s"
        using True alive by (subst death_loop.simps) simp
      have f: "take (i + 1) (creatures s)
                 @ filter (\<lambda>c. \<not> creature_dead s c) (drop (i + 1) (creatures s))
               = take i (creatures s) @ filter (\<lambda>c. \<not> creature_dead s c) (drop i (creatures s))"
        using filter_drop_alive [OF True, of "\<lambda>c. \<not> creature_dead s c"] alive by simp
      show ?thesis
        unfolding e 1(2) [OF True alive] f ..
    qed
  qed
qed

lemma death_pass_creatures:
  "creatures (death_pass s) = filter (\<lambda>c. \<not> creature_dead s c) (creatures s)"
  by (simp add: death_pass_def death_loop_creatures)

lemma death_pass_frame:
  "death_pass s = s\<lparr>creatures := creatures (death_pass s),
                      creaturePool := creaturePool (death_pass s),
                      bestCreatures := bestCreatures (death_pass s)\<rparr>"
  unfolding death_pass_def by (rule death_loop_frame)

lemma GetAction_creatures:
  assumes "GetAction c s = Inr (a, c', s')"
  shows "creatures s' = creatures s"
proof -
  obtain s1 where s1: "forM [0..<numBrainInputs]
              (\<lambda>i s. let angle = pi * 2 * real i / real numBrainInputs in
                 case DistanceToNearest s c angle of
                   None \<Rightarrow> Inl Diverges
                 | Some d \<Rightarrow> rbind (upd (brainInputs s) i d) (\<lambda>bi.
                             Inr (s\<lparr>brainInputs := bi\<rparr>))) s = Inr s1"
    and "s' = s1"
    using assms by (auto simp: GetAction_def rbind_eq_Inr split: prod.splits)
  have "creatures s1 = creatures s"
    by (rule forM_preserves [OF s1, where I = "\<lambda>t. creatures t = creatures s"])
       (auto simp: Let_def rbind_eq_Inr split: option.splits)
  then show ?thesis using \<open>s' = s1\<close> by simp
qed

lemma act_length:
  assumes "act i s = Inr s'"
  shows "length (creatures s') = length (creatures s)"
proof -
  obtain c where c: "rbind (GetAction c s) (\<lambda>((turn, move), c, s).
     let c = c\<lparr>c_angle := c_angle c + turn / 8\<rparr>;
         ax = cos (c_angle c);
         ay = sin (c_angle c);
         c = c\<lparr>c_x := c_x c + ax * move * 4\<rparr>;
         c = c\<lparr>c_y := c_y c + ay * move * 4\<rparr>;
         c = (if score c < MaxInt64 then c\<lparr>score := score c + 1\<rparr> else c)
     in Inr (s\<lparr>creatures := (creatures s)[i := c]\<rparr>)) = Inr s'"
    using assms unfolding act_def rbind_eq_Inr by blast
  then obtain r where r: "GetAction c s = Inr r" unfolding rbind_eq_Inr by blast
  obtain a c' s1 where r': "r = (a, c', s1)" by (cases r) auto
  have "creatures s1 = creatures s" using GetAction_creatures r r' by blast
  moreover have "\<exists>c''. s' = s1\<lparr>creatures := (creatures s1)[i := c'']\<rparr>"
    using c unfolding r r' by (cases a) (simp add: Let_def, metis)
  ultimately show ?thesis by auto
qed

lemma action_pass_length:
  assumes "action_pass s = Inr s'"
  shows "length (creatures s') = length (creatures s)"
  by (rule forM_preserves [OF assms [unfolded action_pass_def],
        where I = "\<lambda>t. length (creatures t) = length (creatures s)"])
     (simp_all add: act_length)

lemma update_top_creatures:
  "update_top s = Inr s' \<Longrightarrow> creatures s' = creatures s"
  by (auto simp: update_top_def Let_def rbind_eq_Inr)

lemma truncate_best_ok: "\<exists>best'. truncate_best best = Inr best'"
proof (cases "int (length best) > maxBestCreatures")
  case True
  then have "truncate_loop (int (length best) - 1) best = Inr (take (nat maxCreatures + 1) best)"
    by (intro truncate_loop_eq) (simp_all add: maxCreatures_eq)
  then show ?thesis using True by (simp add: truncate_best_def)
next
  case False
  then show ?thesis by (simp add: truncate_best_def)
qed

lemma update_top_ok: "\<exists>best. update_top s = Inr (s\<lparr>bestCreatures := best\<rparr>)"
proof -
  obtain best where "truncate_best (sort_best
      (foldl (\<lambda>best c. fold_best (heap (env s)) best (GetWeights (brain c)) (score c))
                   (bestCreatures s) (creatures s))) = Inr best"
    using truncate_best_ok by blast
  then show ?thesis by (auto simp: update_top_def Let_def)
qed

lemma sim_ok_other [simp]:
  "sim_ok (s\<lparr>frame := f\<rparr>) = sim_ok s"
  "sim_ok (s\<lparr>obstacles := obs\<rparr>) = sim_ok s"
  "sim_ok (s\<lparr>tickCounter := n\<rparr>) = sim_ok s"
  by (simp_all add: sim_ok_def)

lemma update_obstacles_frame:
  "update_obstacles i s = s\<lparr>obstacles := obstacles (update_obstacles i s)\<rparr>"
proof (induction i s rule: update_obstacles.induct)
  case (1 i s)
  show ?case
  proof (cases "i < length (obstacles s)")
    case False
    then have "update_obstacles i s = s" by (subst update_obstacles.simps) simp
    then show ?thesis by simp
  next
    case True
    show ?thesis
    proof (cases "far_off_screen s (move_obstacle (obstacles s ! i))")
      case far: True
      define s1 where "s1 = s\<lparr>obstacles := take i (obstacles s) @ drop (i + 1) (obstacles s)\<rparr>"
      define U where "U = update_obstacles i s1"
      have e: "update_obstacles i s = U"
        using True far unfolding U_def s1_def by (subst update_obstacles.simps) simp
      have "U = s1\<lparr>obstacles := obstacles U\<rparr>"
        using 1(1) [OF True far] unfolding U_def s1_def .
      moreover have "s1\<lparr>obstacles := X\<rparr> = s\<lparr>obstacles := X\<rparr>" for X
        by (simp add: s1_def)
      ultimately have "U = s\<lparr>obstacles := obstacles U\<rparr>" by simp
      then show ?thesis unfolding e .
    next
      case near: False
      define s1 where "s1 = s\<lparr>obstacles := (obstacles s)[i := move_obstacle (obstacles s ! i)]\<rparr>"
      define U where "U = update_obstacles (i + 1) s1"
      have e: "update_obstacles i s = U"
        using True near unfolding U_def s1_def by (subst update_obstacles.simps) simp
      have "U = s1\<lparr>obstacles := obstacles U\<rparr>"
        using 1(2) [OF True near] unfolding U_def s1_def .
      moreover have "s1\<lparr>obstacles := X\<rparr> = s\<lparr>obstacles := X\<rparr>" for X
        by (simp add: s1_def)
      ultimately have "U = s\<lparr>obstacles := obstacles U\<rparr>" by simp
      then show ?thesis unfolding e .
    qed
  qed
qed

lemma NewRandomObstacle_frame:
  assumes "NewRandomObstacle s = Inr (ob, s')"
  shows "s' = s\<lparr>env := env s'\<rparr>"
  using assms by (auto simp: NewRandomObstacle_def rbind_eq_Inr)

lemma SpawnObstacles_frame:
  assumes "SpawnObstacles n s = Inr s'"
  shows "s' = s\<lparr>obstacles := obstacles s', env := env s'\<rparr>"
proof -
  obtain j where l: "for_loop 0 n
              (\<lambda>i s. rbind (NewRandomObstacle s) (\<lambda>(ob, s).
                      Inr (s\<lparr>obstacles := obstacles s @ [ob]\<rparr>))) s = Inr (j, s')"
    using assms by (auto simp: SpawnObstacles_def rbind_eq_Inr)
  show ?thesis
  proof (rule for_loop_preserves [OF l, where I = "\<lambda>t. t = s\<lparr>obstacles := obstacles t, env := env t\<rparr>"])
    show "s = s\<lparr>obstacles := obstacles s, env := env s\<rparr>" by simp
  next
    fix i t t'
    assume t: "t = s\<lparr>obstacles := obstacles t, env := env t\<rparr>"
      and b: "rbind (NewRandomObstacle t) (\<lambda>(ob, s). Inr (s\<lparr>obstacles := obstacles s @ [ob]\<rparr>)) = Inr t'"
    obtain ob t1 where n: "NewRandomObstacle t = Inr (ob, t1)"
      and t': "t' = t1\<lparr>obstacles := obstacles t1 @ [ob]\<rparr>"
      using b by (auto simp: rbind_eq_Inr)
    define E where "E = env t1"
    define Et where "Et = env t"
    define Ob where "Ob = obstacles t"
    have a: "t1 = t\<lparr>env := E\<rparr>" using NewRandomObstacle_frame [OF n] unfolding E_def .
    have b: "t = s\<lparr>obstacles := Ob, env := Et\<rparr>" using t unfolding Ob_def Et_def .
    have "t1 = s\<lparr>obstacles := Ob, env := E\<rparr>"
      unfolding a b by simp
    then have "t' = s\<lparr>obstacles := Ob @ [ob], env := E\<rparr>"
      unfolding t' by simp
    then show "t' = s\<lparr>obstacles := obstacles t', env := env t'\<rparr>"
      by simp
  qed
qed


lemma tick_obstacles_frame:
  assumes "tick_obstacles s = Inr s'"
  shows "s' = s\<lparr>obstacles := obstacles s', env := env s'\<rparr>"
proof -
  define u where "u = update_obstacles 0 s"
  define Ou where "Ou = obstacles u"
  have u: "u = s\<lparr>obstacles := Ou\<rparr>"
    unfolding u_def Ou_def by (rule update_obstacles_frame)
  show ?thesis
  proof (cases "int (length (obstacles u)) < numObstacles")
    case True
    then have "SpawnObstacles (numObstacles - int (length (obstacles u))) u = Inr s'"
      using assms by (simp add: tick_obstacles_def u_def Let_def)
    from SpawnObstacles_frame [OF this]
    have "s' = u\<lparr>obstacles := obstacles s', env := env s'\<rparr>" .
    then show ?thesis unfolding u by simp
  next
    case False
    then have "s' = u" using assms by (simp add: tick_obstacles_def u_def Let_def)
    then show ?thesis using u by simp
  qed
qed

lemma shuffleCreatures_ok: "\<exists>s'. shuffleCreatures s = Inr s'"
proof -
  have "\<exists>s'. forM (rev [1..<length (creatures s)])
       (\<lambda>i s. rbind (Intn (int i + 1) (env s)) (\<lambda>(j, e).
               Inr (s\<lparr>creatures := (creatures s)[i := creatures s ! nat j,
                                                 nat j := creatures s ! i],
                      env := e\<rparr>))) s = Inr s' \<and> True"
    by (rule forM_invariant [where I = "\<lambda>_. True"]) (simp_all add: Intn_ok)
  then show ?thesis by (simp add: shuffleCreatures_def)
qed

lemma shuffleCreatures_frame:
  assumes "shuffleCreatures s = Inr s'"
  shows "s' = s\<lparr>creatures := creatures s', env := env s'\<rparr>"
    "set (creatures s') = set (creatures s)" "length (creatures s') = length (creatures s)"
proof -
  define I where "I t \<longleftrightarrow> t = s\<lparr>creatures := creatures t, env := env t\<rparr> \<and>
     set (creatures t) = set (creatures s) \<and> length (creatures t) = length (creatures s)" for t
  have "I s'"
  proof (rule forM_preserves [OF assms [unfolded shuffleCreatures_def], where I = I])
    show "I s" by (simp add: I_def)
  next
    fix i t t'
    assume i: "i \<in> set (rev [1..<length (creatures s)])" and t: "I t"
      and b: "rbind (Intn (int i + 1) (env t)) (\<lambda>(j, e).
               Inr (t\<lparr>creatures := (creatures t)[i := creatures t ! nat j,
                                                 nat j := creatures t ! i],
                      env := e\<rparr>)) = Inr t'"
    define j where "j = int (rint (env t) (rpos (env t))) mod (int i + 1)"
    define E where "E = (env t)\<lparr>rpos := rpos (env t) + 1\<rparr>"
    define Ct where "Ct = creatures t"
    define Et where "Et = env t"
    have t': "t' = t\<lparr>creatures := Ct[i := Ct ! nat j, nat j := Ct ! i], env := E\<rparr>"
      using b by (simp add: Intn_ok j_def E_def Ct_def)
    have ts: "t = s\<lparr>creatures := Ct, env := Et\<rparr>" using t unfolding I_def Ct_def Et_def by simp
    have il: "i < length Ct" using i t by (simp add: I_def Ct_def)
    have "0 \<le> j" unfolding j_def by simp
    moreover have "j < int i + 1" unfolding j_def by (rule pos_mod_bound) simp
    ultimately have "0 \<le> j" "j < int i + 1" .
    then have jl: "nat j < length Ct" using il by linarith
    have "set (Ct[i := Ct ! nat j, nat j := Ct ! i]) = set Ct"
      by (rule set_swap [OF il jl])
    moreover have "t' = s\<lparr>creatures := Ct[i := Ct ! nat j, nat j := Ct ! i], env := E\<rparr>"
      unfolding t' ts by simp
    ultimately show "I t'"
      using t unfolding I_def Ct_def by simp
  qed
  then show "s' = s\<lparr>creatures := creatures s', env := env s'\<rparr>"
    "set (creatures s') = set (creatures s)" "length (creatures s') = length (creatures s)"
    by (simp_all add: I_def)
qed

lemma tick_evolution_spawned:
  assumes "sim_ok s"
  shows "\<exists>s' k. tick_evolution s = Inr s' \<and> spawned k s s'"
proof (cases "go_mod (tickCounter s) evolutionCycleTicks = 0 \<and> int (length (creatures s)) < maxCreatures")
  case True
  then have "0 \<le> maxCreatures - int (length (creatures s))" by simp
  from SpawnCreatures_spawned [OF assms this] True show ?thesis
    by (auto simp: tick_evolution_def)
next
  case False
  have "spawned 0 s s" using assms by (simp add: spawned_0 sim_ok_def)
  then show ?thesis using False by (auto simp: tick_evolution_def)
qed

lemma tick_floor_spawned:
  assumes "sim_ok s"
  shows "\<exists>s' k. tick_floor s = Inr s' \<and> spawned k s s' \<and>
           minCreatures \<le> int (length (creatures s'))"
proof (cases "int (length (creatures s)) < minCreatures")
  case True
  define n where "n = minCreatures - int (length (creatures s))"
  have n: "0 \<le> n" "1 \<le> n" using True by (simp_all add: n_def)
  obtain s' where s': "SpawnCreatures n s = Inr s'"
    "spawned (if bestCreatures s = [] then nat n else nat (max 1 n)) s s'"
    using SpawnCreatures_spawned [OF assms n(1)] by blast
  have k: "(if bestCreatures s = [] then nat n else nat (max 1 n)) = nat n"
    using n by simp
  have "length (creatures s') = length (creatures s) + nat n"
    using spawned_sim_ok(2) [OF assms s'(2)] unfolding k .
  then have "minCreatures \<le> int (length (creatures s'))"
    using n by (simp add: n_def)
  then show ?thesis using True s' by (auto simp: tick_floor_def n_def)
next
  case False
  have "spawned 0 s s" using assms by (simp add: spawned_0 sim_ok_def)
  then show ?thesis using False by (auto simp: tick_floor_def)
qed

lemma env_same_refl [simp]: "env_same e e"
  by (simp add: env_same_def)

lemma env_same_trans: "env_same a b \<Longrightarrow> env_same b c \<Longrightarrow> env_same a c"
  by (simp add: env_same_def)

lemma env_same_rpos [simp]: "env_same e (e\<lparr>rpos := p\<rparr>)"
  by (simp add: env_same_def)

lemma redraw_while_zero_env:
  "redraw_while_zero d e = Some r \<Longrightarrow> env_same e (snd r)"
proof (rule redraw_while_zero.raw_induct [where P = "\<lambda>d e r. env_same e (snd r)"])
  fix redraw :: "real \<Rightarrow> Env \<Rightarrow> (real \<times> Env) option" and d e r
  assume IH: "\<And>d e r. redraw d e = Some r \<Longrightarrow> env_same e (snd r)"
    and b: "(if d = 0 then (case Float64 e of (r, e') \<Rightarrow> redraw (r * 2 - 1) e')
             else Some (d, e)) = Some r"
  show "env_same e (snd r)"
  proof (cases "d = 0")
    case True
    then have "redraw (rfloat e (rpos e) * 2 - 1) (e\<lparr>rpos := rpos e + 1\<rparr>) = Some r"
      using b by (simp add: Float64_def)
    from IH [OF this] show ?thesis by (simp add: env_same_def)
  next
    case False
    then show ?thesis using b by auto
  qed
qed

lemma redraw_while_zero_nonzero: "d \<noteq> 0 \<Longrightarrow> redraw_while_zero d e = Some (d, e)"
  by (subst redraw_while_zero.simps) simp

lemma Intn_env: "Intn n e = Inr (v, e') \<Longrightarrow> env_same e e'"
  by (auto simp: Intn_def split: if_splits)

lemma random_obstacle_env:
  assumes "random_obstacle w e = Inr (ob, e')"
  shows "env_same e e'"
proof -
  define e1 where "e1 = e\<lparr>rpos := rpos e + 1\<rparr>"
  define e2 where "e2 = e1\<lparr>rpos := rpos e1 + 1\<rparr>"
  have a: "env_same e e2" by (simp add: e1_def e2_def env_same_def)
  obtain d1 e3 where r1: "redraw_while_zero (rfloat e (rpos e) * 2 - 1) e2 = Some (d1, e3)"
    using assms unfolding random_obstacle_def Float64_def e1_def e2_def
    by (auto split: option.splits prod.splits)
  obtain d2 e4 where r2: "redraw_while_zero (rfloat e1 (rpos e1) * 2 - 1) e3 = Some (d2, e4)"
    using assms r1 unfolding random_obstacle_def Float64_def e1_def e2_def
    by (auto split: option.splits prod.splits)
  have b: "env_same e2 e3" using redraw_while_zero_env [OF r1] by simp
  have c: "env_same e3 e4" using redraw_while_zero_env [OF r2] by simp
  have "\<exists>rx ry rl e5 e6. Intn w e4 = Inr (rx, e5) \<and> Intn w e5 = Inr (ry, e6) \<and>
          Intn w (e6\<lparr>rpos := rpos e6 + 1\<rparr>) = Inr (rl, e')"
    using assms r1 r2 unfolding random_obstacle_def Float64_def e1_def e2_def
    by (auto simp: rbind_eq_Inr Let_def split: option.splits prod.splits)
  then obtain rx ry rl e5 e6 where i: "Intn w e4 = Inr (rx, e5)" "Intn w e5 = Inr (ry, e6)"
          "Intn w (e6\<lparr>rpos := rpos e6 + 1\<rparr>) = Inr (rl, e')" by blast
  have "env_same e4 e5" "env_same e5 e6" "env_same e6 (e6\<lparr>rpos := rpos e6 + 1\<rparr>)"
    "env_same (e6\<lparr>rpos := rpos e6 + 1\<rparr>) e'"
    using i by (simp_all add: Intn_env)
  with a b c show ?thesis by (blast intro: env_same_trans)
qed

lemma random_obstacle_ok:
  assumes "0 < w" "\<And>p. rfloat e p \<noteq> 1 / 2"
  shows "\<exists>ob e'. random_obstacle w e = Inr (ob, e')"
proof -
  have "rfloat e p * 2 - 1 \<noteq> 0" for p using assms(2) [of p] by simp
  then have r: "redraw_while_zero (rfloat e p * 2 - 1) ea = Some (rfloat e p * 2 - 1, ea)" for p ea
    by (rule redraw_while_zero_nonzero)
  show ?thesis
    unfolding random_obstacle_def Float64_def
    by (simp add: r Intn_ok assms(1) Let_def)
qed

lemma SpawnObstacles_env:
  assumes "SpawnObstacles n s = Inr s'"
  shows "env_same (env s) (env s')"
proof -
  obtain j where l: "for_loop 0 n
              (\<lambda>i s. rbind (NewRandomObstacle s) (\<lambda>(ob, s).
                      Inr (s\<lparr>obstacles := obstacles s @ [ob]\<rparr>))) s = Inr (j, s')"
    using assms by (auto simp: SpawnObstacles_def rbind_eq_Inr)
  show ?thesis
  proof (rule for_loop_preserves [OF l, where I = "\<lambda>t. env_same (env s) (env t)"])
    show "env_same (env s) (env s)" by simp
  next
    fix i :: int and t t'
    assume t: "env_same (env s) (env t)"
      and b: "rbind (NewRandomObstacle t) (\<lambda>(ob, s). Inr (s\<lparr>obstacles := obstacles s @ [ob]\<rparr>)) = Inr t'"
    obtain ob e where r: "random_obstacle (width t) (env t) = Inr (ob, e)" and t': "env t' = e"
      using b by (auto simp: NewRandomObstacle_def rbind_eq_Inr)
    show "env_same (env s) (env t')"
      using env_same_trans [OF t random_obstacle_env [OF r]] t' by simp
  qed
qed

lemma SpawnObstacles_ok:
  assumes "0 < width s" "\<And>p. rfloat (env s) p \<noteq> 1 / 2"
  shows "\<exists>s'. SpawnObstacles n s = Inr s'"
proof -
  define R where "R = (\<lambda>(k::nat) (t::Sim). width t = width s \<and> rfloat (env t) = rfloat (env s))"
  have "\<exists>s'. for_loop 0 n
              (\<lambda>i s. rbind (NewRandomObstacle s) (\<lambda>(ob, s).
                      Inr (s\<lparr>obstacles := obstacles s @ [ob]\<rparr>))) s = Inr (max 0 n, s') \<and>
              R (nat (n - 0)) s'"
  proof (rule for_loop_rel [where R = R])
    show "R 0 s" by (simp add: R_def)
  next
    fix k t
    assume "R k t"
    then have w: "width t = width s" and f: "rfloat (env t) = rfloat (env s)"
      by (simp_all add: R_def)
    obtain ob e where r: "random_obstacle (width t) (env t) = Inr (ob, e)"
      using random_obstacle_ok [of "width t" "env t"] assms w f by auto
    have "rfloat e = rfloat (env t)" using random_obstacle_env [OF r] by (simp add: env_same_def)
    then show "\<exists>s'. rbind (NewRandomObstacle t) (\<lambda>(ob, s). Inr (s\<lparr>obstacles := obstacles s @ [ob]\<rparr>))
                  = Inr s' \<and> R (Suc k) s'"
      using r w f by (simp add: NewRandomObstacle_def R_def)
  qed
  then show ?thesis by (auto simp: SpawnObstacles_def)
qed

lemma tick_obstacles_env:
  assumes "tick_obstacles s = Inr s'"
  shows "env_same (env s) (env s')"
proof -
  define u where "u = update_obstacles 0 s"
  have u: "env u = env s" "width u = width s"
    unfolding u_def by (subst update_obstacles_frame, simp)+
  show ?thesis
  proof (cases "int (length (obstacles u)) < numObstacles")
    case True
    then have "SpawnObstacles (numObstacles - int (length (obstacles u))) u = Inr s'"
      using assms by (simp add: tick_obstacles_def u_def Let_def)
    from SpawnObstacles_env [OF this] show ?thesis by (simp add: u)
  next
    case False
    then have "s' = u" using assms by (simp add: tick_obstacles_def u_def Let_def)
    then show ?thesis by (simp add: u)
  qed
qed

lemma tick_obstacles_ok:
  assumes "0 < width s" "\<And>p. rfloat (env s) p \<noteq> 1 / 2"
  shows "\<exists>s'. tick_obstacles s = Inr s'"
proof -
  define u where "u = update_obstacles 0 s"
  have u: "env u = env s" "width u = width s"
    unfolding u_def by (subst update_obstacles_frame, simp)+
  have "\<exists>s'. SpawnObstacles n u = Inr s'" for n
    using assms by (intro SpawnObstacles_ok) (simp_all add: u)
  then show ?thesis
    unfolding tick_obstacles_def u_def [symmetric] Let_def by simp
qed

lemma forM_upt0_preserves:
  assumes "forM [0..<n] body s = Inr s'" "R 0 s"
    and "\<And>k t t'. k < n \<Longrightarrow> R k t \<Longrightarrow> body k t = Inr t' \<Longrightarrow> R (Suc k) t'"
  shows "R n s'"
  using assms(1,3)
proof (induction n arbitrary: s')
  case 0
  then show ?case using assms(2) by simp
next
  case (Suc n)
  from Suc.prems(1) obtain t where t: "forM [0..<n] body s = Inr t" and b: "body n t = Inr s'"
    by (auto simp: forM_append rbind_eq_Inr)
  have "R n t" by (rule Suc.IH [OF t]) (rule Suc.prems(2), simp_all)
  then show ?case using b by (intro Suc.prems(2)) simp_all
qed

lemma tick_prepare_state:
  assumes "sim_ok s" "tick_prepare D s = Inr s1"
  shows "\<exists>sB cs. tick_obstacles (tick_draw_arena D s) = Inr sB \<and>
           obstacles s1 = obstacles sB \<and>
           frame s1 = frame (tick_draw_obstacles D sB) \<and>
           borderWidthf s1 = borderWidthf s \<and>
           set (creatures s1) = set (creatures s @ cs) \<and>
           length (creatures s1) = length (creatures s @ cs) \<and>
           list_all (\<lambda>c. \<exists>p. c_x c = spawn_x s p \<and> c_y c = spawn_y s p) cs \<and>
           minCreatures \<le> int (length (creatures s1))"
proof -
  obtain sB sC sD where sB: "tick_obstacles (tick_draw_arena D s) = Inr sB"
    and sC: "tick_evolution (tick_draw_obstacles D sB) = Inr sC"
    and sD: "tick_floor sC = Inr sD"
    and s1: "shuffleCreatures sD = Inr s1"
    using assms(2) unfolding tick_prepare_def rbind_eq_Inr by blast
  define Ob where "Ob = obstacles sB"
  define Eb where "Eb = env sB"
  have fB: "sB = (tick_draw_arena D s)\<lparr>obstacles := Ob, env := Eb\<rparr>"
    using tick_obstacles_frame [OF sB] unfolding Ob_def Eb_def .
  have rB: "rint Eb = rint (env s)"
    using tick_obstacles_env [OF sB] by (simp add: env_same_def Eb_def tick_draw_arena_def)
  have okB: "sim_ok (tick_draw_obstacles D sB)"
    unfolding tick_draw_obstacles_def by (subst fB) (simp add: tick_draw_arena_def assms(1))
  obtain k where k: "spawned k (tick_draw_obstacles D sB) sC"
    using tick_evolution_spawned [OF okB] sC by auto
  have okC: "sim_ok sC" using spawned_sim_ok(1) [OF okB k] .
  obtain k' where k': "spawned k' sC sD" "minCreatures \<le> int (length (creatures sD))"
    using tick_floor_spawned [OF okC] sD by auto
  have kk: "spawned (k + k') (tick_draw_obstacles D sB) sD"
    using spawned_trans [OF k k'(1)] .
  then obtain cs pool e where
    d: "sD = (tick_draw_obstacles D sB)\<lparr>creatures := creatures (tick_draw_obstacles D sB) @ cs,
                                         creaturePool := pool, env := e\<rparr>"
    and p: "list_all (\<lambda>c. \<exists>p. c_x c = spawn_x (tick_draw_obstacles D sB) p \<and>
                                c_y c = spawn_y (tick_draw_obstacles D sB) p) cs"
    unfolding spawned_def by blast
  have cB: "creatures (tick_draw_obstacles D sB) = creatures s"
    unfolding tick_draw_obstacles_def by (subst fB) (simp add: tick_draw_arena_def)
  have bB: "borderWidthf (tick_draw_obstacles D sB) = borderWidthf s"
    unfolding tick_draw_obstacles_def by (subst fB) (simp add: tick_draw_arena_def)
  have oB: "obstacles (tick_draw_obstacles D sB) = obstacles sB"
    by (simp add: tick_draw_obstacles_def)
  have xB: "spawn_x (tick_draw_obstacles D sB) = spawn_x s"
    "spawn_y (tick_draw_obstacles D sB) = spawn_y s"
    unfolding tick_draw_obstacles_def
    by (subst fB, rule ext, simp add: spawn_x_def spawn_y_def tick_draw_arena_def rB)+
  define C1 where "C1 = creatures s1"
  define E1 where "E1 = env s1"
  have f1: "s1 = sD\<lparr>creatures := C1, env := E1\<rparr>"
    using shuffleCreatures_frame(1) [OF s1] unfolding C1_def E1_def .
  have "obstacles s1 = obstacles sB" unfolding f1 d by (simp add: oB)
  moreover have "frame s1 = frame (tick_draw_obstacles D sB)" unfolding f1 d by simp
  moreover have "borderWidthf s1 = borderWidthf s" unfolding f1 d by (simp add: bB)
  moreover have "set (creatures s1) = set (creatures s @ cs)"
    using shuffleCreatures_frame(2) [OF s1] unfolding d by (simp add: cB)
  moreover have "length (creatures s1) = length (creatures s @ cs)"
    using shuffleCreatures_frame(3) [OF s1] unfolding d by (simp add: cB)
  moreover have "minCreatures \<le> int (length (creatures s1))"
    using shuffleCreatures_frame(3) [OF s1] k'(2) by simp
  moreover have "list_all (\<lambda>c. \<exists>p. c_x c = spawn_x s p \<and> c_y c = spawn_y s p) cs"
    using p unfolding xB .
  ultimately show ?thesis using sB by blast
qed

lemma tick_prepare_ok:
  assumes "sim_ok s" "\<And>p. rfloat (env s) p \<noteq> 1 / 2"
  shows "\<exists>s1. tick_prepare D s = Inr s1"
proof -
  have w: "0 < width s" using assms(1) by (simp add: sim_ok_def creatureRadius_def)
  obtain sB where sB: "tick_obstacles (tick_draw_arena D s) = Inr sB"
    using tick_obstacles_ok [of "tick_draw_arena D s"] w assms(2)
    by (auto simp: tick_draw_arena_def)
  define Ob where "Ob = obstacles sB"
  define Eb where "Eb = env sB"
  have fB: "sB = (tick_draw_arena D s)\<lparr>obstacles := Ob, env := Eb\<rparr>"
    using tick_obstacles_frame [OF sB] unfolding Ob_def Eb_def .
  have okB: "sim_ok (tick_draw_obstacles D sB)"
    unfolding tick_draw_obstacles_def by (subst fB) (simp add: tick_draw_arena_def assms(1))
  obtain sC k where sC: "tick_evolution (tick_draw_obstacles D sB) = Inr sC"
    and k: "spawned k (tick_draw_obstacles D sB) sC"
    using tick_evolution_spawned [OF okB] by auto
  have okC: "sim_ok sC" using spawned_sim_ok(1) [OF okB k] .
  obtain sD where sD: "tick_floor sC = Inr sD"
    using tick_floor_spawned [OF okC] by auto
  obtain s1 where s1: "shuffleCreatures sD = Inr s1"
    using shuffleCreatures_ok by blast
  show ?thesis unfolding tick_prepare_def by (simp add: sB sC sD s1)
qed

lemma DoTick_state:
  assumes "DoTick D s = Inr s'"
  shows "\<exists>s1 s2. tick_prepare D s = Inr s1 \<and> action_pass (death_pass s1) = Inr s2 \<and>
           creatures s' = creatures s2"
proof -
  obtain s1 s2 s3 where a: "tick_prepare D s = Inr s1" "action_pass (death_pass s1) = Inr s2"
    "update_top s2 = Inr s3" "s' = (tick_draw_creatures D s3)\<lparr>tickCounter := tickCounter s3 + 1\<rparr>"
    using assms unfolding DoTick_def rbind_eq_Inr by auto
  have "creatures s' = creatures s3" by (simp add: a(4) tick_draw_creatures_def)
  also have "\<dots> = creatures s2" by (rule update_top_creatures [OF a(3)])
  finally show ?thesis using a by blast
qed

lemma DoTick_ok:
  assumes "tick_prepare D s = Inr s1" "action_pass (death_pass s1) = Inr s2"
  shows "\<exists>s'. DoTick D s = Inr s' \<and> creatures s' = creatures s2"
proof -
  obtain best where b: "update_top s2 = Inr (s2\<lparr>bestCreatures := best\<rparr>)"
    using update_top_ok by blast
  show ?thesis unfolding DoTick_def by (simp add: assms b tick_draw_creatures_def)
qed

lemma ideal_obstacles_mono:
  "f x y \<Longrightarrow> foldl (\<lambda>f ob. draw_obstacle ideal_draw B ob f) f obs x y"
  by (induction obs arbitrary: f) (simp_all add: ideal_draw_def)

lemma sim_ok_example_sim: "sim_ok example_sim"
  by (simp add: sim_ok_def example_sim_def NewSim_def creatureRadius_def)

lemma example_sim_all_die:
  "\<exists>s1 s'. tick_prepare ideal_draw example_sim = Inr s1 \<and>
     minCreatures \<le> int (length (creatures s1)) \<and>
     list_all (\<lambda>c. c_x c = 404 \<and> c_y c = 404 \<and> creature_dead s1 c) (creatures s1) \<and>
     DoTick ideal_draw example_sim = Inr s' \<and> creatures s' = []"
proof -
  have rf: "rfloat (env example_sim) p \<noteq> 1 / 2" for p
    by (simp add: example_sim_def NewSim_def example_env_def)
  obtain s1 where s1: "tick_prepare ideal_draw example_sim = Inr s1"
    using tick_prepare_ok [OF sim_ok_example_sim rf] by blast
  obtain sB cs where sB: "tick_obstacles (tick_draw_arena ideal_draw example_sim) = Inr sB"
    and f1: "frame s1 = frame (tick_draw_obstacles ideal_draw sB)"
    and b1: "borderWidthf s1 = borderWidthf example_sim"
    and c1: "set (creatures s1) = set (creatures example_sim @ cs)"
    and p1: "list_all (\<lambda>c. \<exists>p. c_x c = spawn_x example_sim p \<and> c_y c = spawn_y example_sim p) cs"
    and m1: "minCreatures \<le> int (length (creatures s1))"
    using tick_prepare_state [OF sim_ok_example_sim s1] by blast
  have sx: "spawn_x example_sim p = 404" "spawn_y example_sim p = 404" for p
    by (simp_all add: spawn_x_def spawn_y_def example_sim_def NewSim_def example_env_def
          creatureRadius_def)
  have B: "borderWidthf s1 = 16" unfolding b1 by (simp add: example_sim_def NewSim_def)
  have "frame sB = frame (tick_draw_arena ideal_draw example_sim)"
    by (subst tick_obstacles_frame [OF sB]) simp
  then have "frame sB 421 420"
    by (simp add: tick_draw_arena_def ideal_draw_def example_sim_def NewSim_def)
  then have F: "frame s1 421 420"
    unfolding f1 tick_draw_obstacles_def by (simp add: ideal_obstacles_mono)
  have pos: "c_x c = 404 \<and> c_y c = 404" if "c \<in> set (creatures s1)" for c
  proof -
    have "c \<in> set cs" using that c1 by (simp add: example_sim_def NewSim_def)
    then show ?thesis using p1 by (auto simp: list_all_iff sx)
  qed
  have dead: "creature_dead s1 c" if "c \<in> set (creatures s1)" for c
  proof (rule creature_deadI [where cx = 421 and cy = 420])
    show "frame s1 421 420" by (rule F)
  qed (simp_all add: B pos [OF that] go_int_def creatureRadius_def creatureRadiusf_def)
  have "creatures (death_pass s1) = []"
    unfolding death_pass_creatures using dead by (simp add: filter_empty_conv)
  then have "action_pass (death_pass s1) = Inr (death_pass s1)"
    by (simp add: action_pass_def)
  from DoTick_ok [OF s1 this] \<open>creatures (death_pass s1) = []\<close>
  obtain s' where "DoTick ideal_draw example_sim = Inr s'" "creatures s' = []" by auto
  then show ?thesis using s1 m1 pos dead by (auto simp: list_all_iff)
qed

lemma ray_march_potential:
  fixes g :: "real \<Rightarrow> real \<Rightarrow> real"
  assumes inb: "\<And>x y. x < frameWidthf s \<and> 0 \<le> x \<and> y < frameHeightf s \<and> 0 \<le> y \<Longrightarrow> 0 \<le> g x y"
    and dec: "\<And>x y. g (x + ax) (y + ay) \<le> g x y - 1"
  shows "\<exists>d. ray_march s c ax ay x y = Some d"
proof -
  have "g x y < real n \<Longrightarrow> \<exists>d. ray_march s c ax ay x y = Some d" for n x y
  proof (induction n arbitrary: x y)
    case 0
    then have "\<not> (x < frameWidthf s \<and> 0 \<le> x \<and> y < frameHeightf s \<and> 0 \<le> y)"
      using inb [of x y] by auto
    then show ?case by (simp add: ray_march_out)
  next
    case (Suc n)
    show ?case
    proof (cases "x < frameWidthf s \<and> 0 \<le> x \<and> y < frameHeightf s \<and> 0 \<le> y")
      case False
      then show ?thesis by (simp add: ray_march_out)
    next
      case True
      show ?thesis
      proof (cases "frame s (go_int x) (go_int y)")
        case True
        with \<open>x < frameWidthf s \<and> 0 \<le> x \<and> y < frameHeightf s \<and> 0 \<le> y\<close>
        show ?thesis by (simp add: ray_march_hit)
      next
        case False
        have "g (x + ax) (y + ay) < real n"
          using dec [of x y] Suc.prems by simp
        from Suc.IH [OF this] obtain d where "ray_march s c ax ay (x + ax) (y + ay) = Some d" ..
        with False True show ?thesis by (simp add: ray_march_miss)
      qed
    qed
  qed
  moreover obtain n where "g x y < real n" using reals_Archimedean2 by blast
  ultimately show ?thesis by blast
qed

lemma ray_march_total:
  assumes "ax \<noteq> 0 \<or> ay \<noteq> 0"
  shows "\<exists>d. ray_march s c ax ay x y = Some d"
proof -
  consider "0 < ax" | "ax < 0" | "0 < ay" | "ay < 0" using assms by linarith
  then show ?thesis
  proof cases
    case 1
    show ?thesis
    proof (rule ray_march_potential [where g = "\<lambda>x y. (frameWidthf s - x) / ax"])
      fix x y assume "x < frameWidthf s \<and> 0 \<le> x \<and> y < frameHeightf s \<and> 0 \<le> y"
      then show "0 \<le> (frameWidthf s - x) / ax" using 1 by simp
    next
      fix x y :: real
      have "(frameWidthf s - (x + ax)) / ax = (frameWidthf s - x) / ax - 1"
        using 1 by (simp add: field_simps)
      then show "(frameWidthf s - (x + ax)) / ax \<le> (frameWidthf s - x) / ax - 1" by simp
    qed
  next
    case 2
    show ?thesis
    proof (rule ray_march_potential [where g = "\<lambda>x y. x / (- ax)"])
      fix x y assume "x < frameWidthf s \<and> 0 \<le> x \<and> y < frameHeightf s \<and> 0 \<le> y"
      then show "0 \<le> x / (- ax)" using 2 by (intro divide_nonneg_pos) simp_all
    next
      fix x y :: real
      have "(x + ax) / (- ax) = x / (- ax) - 1"
        using 2 by (simp add: field_simps)
      then show "(x + ax) / (- ax) \<le> x / (- ax) - 1" by simp
    qed
  next
    case 3
    show ?thesis
    proof (rule ray_march_potential [where g = "\<lambda>x y. (frameHeightf s - y) / ay"])
      fix x y assume "x < frameWidthf s \<and> 0 \<le> x \<and> y < frameHeightf s \<and> 0 \<le> y"
      then show "0 \<le> (frameHeightf s - y) / ay" using 3 by simp
    next
      fix x y :: real
      have "(frameHeightf s - (y + ay)) / ay = (frameHeightf s - y) / ay - 1"
        using 3 by (simp add: field_simps)
      then show "(frameHeightf s - (y + ay)) / ay \<le> (frameHeightf s - y) / ay - 1" by simp
    qed
  next
    case 4
    show ?thesis
    proof (rule ray_march_potential [where g = "\<lambda>x y. y / (- ay)"])
      fix x y assume "x < frameWidthf s \<and> 0 \<le> x \<and> y < frameHeightf s \<and> 0 \<le> y"
      then show "0 \<le> y / (- ay)" using 4 by (intro divide_nonneg_pos) simp_all
    next
      fix x y :: real
      have "(y + ay) / (- ay) = y / (- ay) - 1"
        using 4 by (simp add: field_simps)
      then show "(y + ay) / (- ay) \<le> y / (- ay) - 1" by simp
    qed
  qed
qed

lemma DistanceToNearest_total: "\<exists>d. DistanceToNearest s c angle = Some d"
proof -
  have "cos (angle + c_angle c) \<noteq> 0 \<or> sin (angle + c_angle c) \<noteq> 0"
  proof (rule ccontr)
    assume "\<not> ?thesis"
    then have "(sin (angle + c_angle c))\<^sup>2 + (cos (angle + c_angle c))\<^sup>2 = 0" by simp
    then show False unfolding sin_cos_squared_add by simp
  qed
  then show ?thesis unfolding DistanceToNearest_def Let_def by (rule ray_march_total)
qed

lemma TanhActivation_sum_zero:
  assumes "\<And>k. k \<in> set ks \<Longrightarrow> k < len (p_weights p) \<and> slice_nth h (p_weights p) k = 0"
  shows "TanhActivation_sum h p inputs ks acc = Inr acc"
  using assms by (induction ks arbitrary: acc) (auto simp: slice_get_def slice_nth_def)

lemma TanhActivation_bias:
  assumes "0 < length inputs" "length inputs \<le> len (p_weights p)" "inputs ! 0 = 1"
    and "\<And>k. 0 < k \<Longrightarrow> k < length inputs \<Longrightarrow> slice_nth h (p_weights p) k = 0"
  shows "TanhActivation h p inputs = Inr (tanh (slice_nth h (p_weights p) 0))"
proof -
  have u: "[0..<length inputs] = 0 # [1..<length inputs]"
    using assms(1) by (simp add: upt_conv_Cons)
  have "TanhActivation_sum h p inputs [1..<length inputs] acc = Inr acc" for acc
    by (rule TanhActivation_sum_zero) (use assms in auto)
  moreover have "0 < len (p_weights p)" using assms(1,2) by linarith
  ultimately show ?thesis
    unfolding TanhActivation_def u using assms(3)
    by (simp add: slice_get_def slice_nth_def)
qed

lemma Step_inLayer_bias:
  assumes "brain_ok b"
  shows "\<exists>ys. Step_inLayer h b = Inr (b\<lparr>inOutput := ys\<rparr>) \<and> length ys = 25 \<and>
               ys ! 0 = inOutput b ! 0"
proof -
  define I where "I b' \<longleftrightarrow> (\<exists>ys. b' = b\<lparr>inOutput := ys\<rparr> \<and> length ys = 25 \<and>
     ys ! 0 = inOutput b ! 0)" for b'
  note bl = brain_ok_lengths [OF assms]
  have "I b" unfolding I_def using bl by (intro exI [of _ "inOutput b"]) simp
  moreover have "\<exists>s'. (\<lambda>i b. rbind (idx (inLayer b) i) (\<lambda>p.
               rbind (TanhActivation h p (b_x b)) (\<lambda>v.
               rbind (upd (inOutput b) (i + 1) v) (\<lambda>ys.
               Inr (b\<lparr>inOutput := ys\<rparr>))))) i s = Inr s' \<and> I s'"
    if "i \<in> set [0..<length (inLayer b)]" "I s" for i s
  proof -
    from that obtain ys where s: "s = b\<lparr>inOutput := ys\<rparr>" "length ys = 25"
      "ys ! 0 = inOutput b ! 0" and i: "i < 24"
      using bl by (auto simp: I_def)
    obtain v where "TanhActivation h (inLayer b ! i) (b_x b) = Inr v"
      using TanhActivation_ok [of "b_x b" "inLayer b ! i" h]
        brain_ok_inLayer_len [OF assms i] bl by auto
    then show ?thesis
      using s i bl
      by (auto simp: I_def intro!: exI [of _ "ys[Suc i := v]"])
  qed
  ultimately have "\<exists>s'. Step_inLayer h b = Inr s' \<and> I s'"
    unfolding Step_inLayer_def by (rule forM_invariant)
  then show ?thesis by (auto simp: I_def)
qed

lemma Step_outLayer_val:
  assumes "brain_ok b"
  shows "\<exists>os. Step_outLayer h b = Inr (b\<lparr>b_output := os\<rparr>) \<and> length os = 14 \<and>
               (\<forall>i<14. TanhActivation h (outLayer b ! i) (inOutput b) = Inr (os ! i))"
proof -
  define R where "R = (\<lambda>k b'. \<exists>os. b' = b\<lparr>b_output := os\<rparr> \<and> length os = 14 \<and>
     (\<forall>i<k. TanhActivation h (outLayer b ! i) (inOutput b) = Inr (os ! i)))"
  note bl = brain_ok_lengths [OF assms]
  have "\<exists>s'. forM [0..<length (outLayer b)]
       (\<lambda>i b. rbind (idx (outLayer b) i) (\<lambda>p.
               rbind (TanhActivation h p (inOutput b)) (\<lambda>v.
               rbind (upd (b_output b) i v) (\<lambda>os.
               Inr (b\<lparr>b_output := os\<rparr>))))) b = Inr s' \<and> R (length (outLayer b)) s'"
  proof (rule forM_upt0_rel [where R = R])
    show "R 0 b" unfolding R_def using bl by (intro exI [of _ "b_output b"]) simp
  next
    fix k s
    assume k: "k < length (outLayer b)" and "R k s"
    then obtain os where s: "s = b\<lparr>b_output := os\<rparr>" "length os = 14"
      and v: "\<And>i. i < k \<Longrightarrow> TanhActivation h (outLayer b ! i) (inOutput b) = Inr (os ! i)"
      by (auto simp: R_def)
    have k14: "k < 14" using k bl by simp
    obtain w where w: "TanhActivation h (outLayer b ! k) (inOutput b) = Inr w"
      using TanhActivation_ok [of "inOutput b" "outLayer b ! k" h]
        brain_ok_outLayer_len [OF assms k14] bl by auto
    have "R (Suc k) (b\<lparr>b_output := os[k := w]\<rparr>)"
      unfolding R_def
    proof (intro exI [of _ "os[k := w]"] conjI allI impI)
      fix i assume "i < Suc k"
      then show "TanhActivation h (outLayer b ! i) (inOutput b) = Inr (os[k := w] ! i)"
        using v [of i] w k14 s(2) by (cases "i = k") simp_all
    qed (simp_all add: s)
    then show "\<exists>s'. rbind (idx (outLayer s) k) (\<lambda>p.
               rbind (TanhActivation h p (inOutput s)) (\<lambda>v.
               rbind (upd (b_output s) k v) (\<lambda>os.
               Inr (s\<lparr>b_output := os\<rparr>)))) = Inr s' \<and> R (Suc k) s'"
      using s w k14 bl by simp
  qed
  then show ?thesis unfolding Step_outLayer_def R_def using bl by auto
qed

lemma Step_val:
  assumes "brain_ok b" "length input = numBrainInputs"
  shows "\<exists>ys os. length ys = 25 \<and> length os = 14 \<and> ys ! 0 = inOutput b ! 0 \<and>
           (\<forall>i<14. TanhActivation h (outLayer b ! i) ys = Inr (os ! i)) \<and>
           Step h b input
           = Inr ((os ! 0, os ! 1), b\<lparr>b_x := Step_x b input, inOutput := ys, b_output := os\<rparr>)"
proof -
  note bl = brain_ok_lengths [OF assms(1)]
  define b1 where "b1 = b\<lparr>b_x := Step_x b input\<rparr>"
  have ok1: "brain_ok b1"
    using assms bl by (simp add: b1_def Step_x_def numBrainInputs_def)
  obtain ys where ys: "Step_inLayer h b1 = Inr (b1\<lparr>inOutput := ys\<rparr>)" "length ys = 25"
    "ys ! 0 = inOutput b1 ! 0"
    using Step_inLayer_bias [OF ok1, of h] by auto
  have ok2: "brain_ok (b1\<lparr>inOutput := ys\<rparr>)"
    using ok1 ys brain_ok_lengths [OF ok1] by simp
  obtain os where os: "Step_outLayer h (b1\<lparr>inOutput := ys\<rparr>)
                        = Inr (b1\<lparr>inOutput := ys, b_output := os\<rparr>)" "length os = 14"
    "\<forall>i<14. TanhActivation h (outLayer (b1\<lparr>inOutput := ys\<rparr>) ! i)
               (inOutput (b1\<lparr>inOutput := ys\<rparr>)) = Inr (os ! i)"
    using Step_outLayer_val [OF ok2, of h] by auto
  have "Step h b input
        = rbind (rbind (Step_load_input b input) (Step_load_memory (length input - 2))) (\<lambda>b.
          rbind (Step_inLayer h b) (\<lambda>b.
          rbind (Step_outLayer h b) (\<lambda>b.
          rbind (idx (b_output b) 0) (\<lambda>turn.
          rbind (idx (b_output b) 1) (\<lambda>move.
          Inr ((turn, move), b))))))"
    using assms(2) by (simp add: Step_def rbind_def split: sum.splits)
  also have "\<dots> = Inr ((os ! 0, os ! 1), b1\<lparr>inOutput := ys, b_output := os\<rparr>)"
    unfolding Step_loads [OF assms] using ys os by (simp add: b1_def)
  finally have "Step h b input
     = Inr ((os ! 0, os ! 1), b\<lparr>b_x := Step_x b input, inOutput := ys, b_output := os\<rparr>)"
    by (simp add: b1_def)
  moreover have "ys ! 0 = inOutput b ! 0" using ys(3) by (simp add: b1_def)
  moreover have "\<forall>i<14. TanhActivation h (outLayer b ! i) ys = Inr (os ! i)"
    using os(3) by (simp add: b1_def)
  ultimately show ?thesis using ys(2) os(2) by blast
qed

lemma Step_drift:
  assumes "drift_brain h b w" "length input = numBrainInputs"
  shows "\<exists>b'. Step h b input = Inr ((0, tanh w), b') \<and> drift_brain h b' w"
proof -
  have ok: "brain_ok b" and one: "inOutput b ! 0 = 1"
    and z0: "\<And>k. k < 25 \<Longrightarrow> slice_nth h (p_weights (outLayer b ! 0)) k = 0"
    and w1: "slice_nth h (p_weights (outLayer b ! 1)) 0 = w"
    and z1: "\<And>k. 0 < k \<Longrightarrow> k < 25 \<Longrightarrow> slice_nth h (p_weights (outLayer b ! 1)) k = 0"
    using assms(1) by (auto simp: drift_brain_def list_all_iff)
  obtain ys os where ys: "length ys = 25" "ys ! 0 = inOutput b ! 0"
    and os: "length os = 14"
    and v: "\<And>i. i < 14 \<Longrightarrow> TanhActivation h (outLayer b ! i) ys = Inr (os ! i)"
    and st: "Step h b input
       = Inr ((os ! 0, os ! 1), b\<lparr>b_x := Step_x b input, inOutput := ys, b_output := os\<rparr>)"
    using Step_val [OF ok assms(2), of h] by blast
  have "TanhActivation h (outLayer b ! 0) ys = Inr (tanh (slice_nth h (p_weights (outLayer b ! 0)) 0))"
    by (rule TanhActivation_bias)
      (simp_all add: ys one z0 brain_ok_outLayer_len [OF ok])
  then have o0: "os ! 0 = 0" using v [of 0] by (simp add: z0)
  have "TanhActivation h (outLayer b ! 1) ys = Inr (tanh (slice_nth h (p_weights (outLayer b ! 1)) 0))"
    by (rule TanhActivation_bias)
      (use z1 in \<open>simp_all add: ys one brain_ok_outLayer_len [OF ok]\<close>)
  then have o1: "os ! 1 = tanh w" using v [of 1] w1 by simp
  define b' where "b' = b\<lparr>b_x := Step_x b input, inOutput := ys, b_output := os\<rparr>"
  have "brain_ok b'"
    using ok assms(2) brain_ok_lengths [OF ok] ys os
    by (simp add: b'_def brain_ok_def Step_x_def numBrainInputs_def)
  then have "drift_brain h b' w"
    using assms(1) ys one by (simp add: drift_brain_def b'_def)
  then show ?thesis using st o0 o1 by (simp add: b'_def)
qed

lemma GetAction_drift:
  assumes "drift_brain (heap (env s)) (brain c) w" "length (brainInputs s) = numBrainInputs"
  shows "\<exists>b bi. GetAction c s = Inr ((0, tanh w), c\<lparr>brain := b\<rparr>, s\<lparr>brainInputs := bi\<rparr>) \<and>
           length bi = numBrainInputs \<and> drift_brain (heap (env s)) b w"
proof -
  define I where "I = (\<lambda>t. \<exists>bi. t = s\<lparr>brainInputs := bi\<rparr> \<and> length bi = numBrainInputs)"
  have "\<exists>s'. forM [0..<numBrainInputs]
              (\<lambda>i s. let angle = pi * 2 * real i / real numBrainInputs in
                 case DistanceToNearest s c angle of
                   None \<Rightarrow> Inl Diverges
                 | Some d \<Rightarrow> rbind (upd (brainInputs s) i d) (\<lambda>bi.
                             Inr (s\<lparr>brainInputs := bi\<rparr>))) s = Inr s' \<and> I s'"
  proof (rule forM_invariant [where I = I])
    show "I s" unfolding I_def using assms(2) by (intro exI [of _ "brainInputs s"]) simp
  next
    fix i t
    assume i: "i \<in> set [0..<numBrainInputs]" and "I t"
    then obtain bi where t: "t = s\<lparr>brainInputs := bi\<rparr>" "length bi = numBrainInputs"
      by (auto simp: I_def)
    obtain d where d: "DistanceToNearest t c (pi * 2 * real i / real numBrainInputs) = Some d"
      using DistanceToNearest_total by blast
    have "I (s\<lparr>brainInputs := bi[i := d]\<rparr>)"
      unfolding I_def using t(2) by (intro exI [of _ "bi[i := d]"]) simp
    then show "\<exists>s'. (let angle = pi * 2 * real i / real numBrainInputs in
                 case DistanceToNearest t c angle of
                   None \<Rightarrow> Inl Diverges
                 | Some d \<Rightarrow> rbind (upd (brainInputs t) i d) (\<lambda>bi.
                             Inr (t\<lparr>brainInputs := bi\<rparr>))) = Inr s' \<and> I s'"
      using d i t by (simp add: Let_def)
  qed
  then obtain bi where f: "forM [0..<numBrainInputs]
              (\<lambda>i s. let angle = pi * 2 * real i / real numBrainInputs in
                 case DistanceToNearest s c angle of
                   None \<Rightarrow> Inl Diverges
                 | Some d \<Rightarrow> rbind (upd (brainInputs s) i d) (\<lambda>bi.
                             Inr (s\<lparr>brainInputs := bi\<rparr>))) s = Inr (s\<lparr>brainInputs := bi\<rparr>)"
    and bi: "length bi = numBrainInputs"
    by (auto simp: I_def)
  obtain b where b: "Step (heap (env s)) (brain c) bi = Inr ((0, tanh w), b)"
    "drift_brain (heap (env s)) b w"
    using Step_drift [OF assms(1) bi] by blast
  have "GetAction c s = Inr ((0, tanh w), c\<lparr>brain := b\<rparr>, s\<lparr>brainInputs := bi\<rparr>)"
    unfolding GetAction_def f using b(1) by simp
  then show ?thesis using b(2) bi by blast
qed

lemma act_drift:
  assumes "i < length (creatures s)" "drift_brain (heap (env s)) (brain (creatures s ! i)) w"
    "length (brainInputs s) = numBrainInputs"
  shows "\<exists>c' bi. act i s = Inr (s\<lparr>brainInputs := bi, creatures := (creatures s)[i := c']\<rparr>) \<and>
           length bi = numBrainInputs \<and> drifted w (creatures s ! i) c'"
proof -
  define c where "c = creatures s ! i"
  obtain b bi where g: "GetAction c s = Inr ((0, tanh w), c\<lparr>brain := b\<rparr>, s\<lparr>brainInputs := bi\<rparr>)"
    and bi: "length bi = numBrainInputs"
    using GetAction_drift [OF assms(2,3)] unfolding c_def by blast
  define c' where "c' = (let c = c\<lparr>brain := b, c_angle := c_angle c\<rparr>;
         c = c\<lparr>c_x := c_x c + cos (c_angle c) * tanh w * 4\<rparr>;
         c = c\<lparr>c_y := c_y c + sin (c_angle c) * tanh w * 4\<rparr>
     in (if score c < MaxInt64 then c\<lparr>score := score c + 1\<rparr> else c))"
  have "act i s = Inr (s\<lparr>brainInputs := bi, creatures := (creatures s)[i := c']\<rparr>)"
    unfolding act_def using assms(1) g by (simp add: c_def [symmetric] c'_def Let_def)
  moreover have "drifted w c c'" by (simp add: drifted_def c'_def Let_def)
  ultimately show ?thesis using bi unfolding c_def by blast
qed

lemma action_pass_drift:
  assumes "list_all (\<lambda>c. drift_brain (heap (env s)) (brain c) w) (creatures s)"
    "length (brainInputs s) = numBrainInputs"
  shows "\<exists>s'. action_pass s = Inr s' \<and> list_all2 (drifted w) (creatures s) (creatures s')"
proof -
  define n where "n = length (creatures s)"
  define R where "R = (\<lambda>k (t::Sim). heap (env t) = heap (env s) \<and>
     length (brainInputs t) = numBrainInputs \<and> length (creatures t) = n \<and>
     list_all2 (drifted w) (take k (creatures s)) (take k (creatures t)) \<and>
     drop k (creatures t) = drop k (creatures s))"
  have "\<exists>s'. forM [0..<n] act s = Inr s' \<and> R n s'"
  proof (rule forM_upt0_rel [where R = R])
    show "R 0 s" by (simp add: R_def n_def assms(2))
  next
    fix k t
    assume k: "k < n" and t: "R k t"
    have h: "heap (env t) = heap (env s)" and bl: "length (brainInputs t) = numBrainInputs"
      and l: "length (creatures t) = n" and d: "drop k (creatures t) = drop k (creatures s)"
      and m: "list_all2 (drifted w) (take k (creatures s)) (take k (creatures t))"
      using t by (simp_all add: R_def)
    have "creatures t ! k = drop k (creatures t) ! 0" using k l by simp
    also have "\<dots> = creatures s ! k" unfolding d using k by (simp add: n_def)
    finally have e: "creatures t ! k = creatures s ! k" .
    have "drift_brain (heap (env t)) (brain (creatures t ! k)) w"
      unfolding e h using assms(1) k by (simp add: list_all_length n_def)
    from act_drift [OF _ this bl] k l
    obtain c' bi where a: "act k t = Inr (t\<lparr>brainInputs := bi, creatures := (creatures t)[k := c']\<rparr>)"
      "length bi = numBrainInputs" "drifted w (creatures t ! k) c'" by auto
    define t' where "t' = t\<lparr>brainInputs := bi, creatures := (creatures t)[k := c']\<rparr>"
    have "take (Suc k) (creatures s) = take k (creatures s) @ [creatures s ! k]"
      using k by (simp add: take_Suc_conv_app_nth n_def)
    moreover have "take (Suc k) (creatures t') = take k (creatures t) @ [c']"
      using k l by (simp add: t'_def take_Suc_conv_app_nth)
    ultimately have "list_all2 (drifted w) (take (Suc k) (creatures s)) (take (Suc k) (creatures t'))"
      using m a(3) e by (simp add: list_all2_appendI)
    moreover have "drop (Suc k) (creatures t') = drop (Suc k) (creatures s)"
    proof -
      have "drop (Suc k) (creatures t') = drop 1 (drop k (creatures t))"
        by (simp add: t'_def)
      also have "\<dots> = drop (Suc k) (creatures s)" unfolding d by simp
      finally show ?thesis .
    qed
    ultimately have "R (Suc k) t'" using l h a(2) by (simp add: R_def t'_def)
    then show "\<exists>s'. act k t = Inr s' \<and> R (Suc k) s'" using a(1) by (simp add: t'_def)
  qed
  then obtain s' where s': "action_pass s = Inr s'" and r: "R n s'"
    by (auto simp: action_pass_def n_def)
  have l: "length (creatures s') = length (creatures s)"
    and m0: "list_all2 (drifted w) (take (length (creatures s)) (creatures s))
               (take (length (creatures s)) (creatures s'))"
    using r unfolding R_def n_def by blast+
  have m: "list_all2 (drifted w) (creatures s) (take (length (creatures s)) (creatures s'))"
    using m0 by (simp only: take_all [OF order_refl])
  have "take (length (creatures s)) (creatures s') = creatures s'"
    by (rule take_all) (simp add: l)
  then show ?thesis using m s' by simp
qed

lemma sim_ok_drift_sim: "sim_ok drift_sim"
  by (simp add: sim_ok_def drift_sim_def NewSim_def creatureRadius_def)

lemma random_obstacle_drift:
  assumes "rfloat e = rfloat drift_env" "rint e = rint drift_env" "rpos e + 6 \<le> 36"
  shows "\<exists>ob. random_obstacle 405 e = Inr (ob, e\<lparr>rpos := rpos e + 6\<rparr>) \<and>
              o_x ob = 398 \<and> o_angle ob = pi / 2"
proof -
  have r: "redraw_while_zero (- (1 / 2)) ea = Some (- (1 / 2), ea)" for ea
    by (rule redraw_while_zero_nonzero) simp
  have f: "rfloat e p = 1 / 4" if "p < 36" for p
    using that by (simp add: assms(1) drift_env_def)
  have g: "rint e p = 398" if "p < 36" for p
    using that by (simp add: assms(2) drift_env_def)
  have v: "rfloat e (rpos e) = 1 / 4" "rfloat e (Suc (rpos e)) = 1 / 4"
    "rint e (Suc (Suc (rpos e))) = 398" "rint e (Suc (Suc (Suc (rpos e)))) = 398"
    "rfloat e (Suc (Suc (Suc (Suc (rpos e))))) = 1 / 4"
    "rint e (Suc (Suc (Suc (Suc (Suc (rpos e)))))) = 398"
    using assms(3) by (simp_all add: f g)
  show ?thesis
    unfolding random_obstacle_def Float64_def
    by (simp add: r v Intn_ok Let_def)
qed

lemma drift_obstacles:
  "\<exists>sB. tick_obstacles (tick_draw_arena D drift_sim) = Inr sB \<and>
     rpos (env sB) = 36 \<and> list_all (\<lambda>ob. o_x ob = 398 \<and> o_angle ob = pi / 2) (obstacles sB)"
proof -
  define s0 where "s0 = tick_draw_arena D drift_sim"
  define R where "R = (\<lambda>k (t::Sim). width t = 405 \<and> rfloat (env t) = rfloat drift_env \<and>
     rint (env t) = rint drift_env \<and> rpos (env t) = 6 * k \<and>
     list_all (\<lambda>ob. o_x ob = 398 \<and> o_angle ob = pi / 2) (obstacles t))"
  have u: "update_obstacles 0 s0 = s0"
    by (subst update_obstacles.simps)
      (simp add: s0_def tick_draw_arena_def drift_sim_def NewSim_def)
  have l: "obstacles s0 = []"
    by (simp add: s0_def tick_draw_arena_def drift_sim_def NewSim_def)
  have "\<exists>s'. for_loop 0 6
              (\<lambda>i s. rbind (NewRandomObstacle s) (\<lambda>(ob, s).
                      Inr (s\<lparr>obstacles := obstacles s @ [ob]\<rparr>))) s0 = Inr (max 0 6, s') \<and>
              R (nat (6 - 0)) s'"
  proof (rule for_loop_rel [where R = R])
    show "R 0 s0"
      by (simp add: R_def s0_def tick_draw_arena_def drift_sim_def NewSim_def drift_env_def)
  next
    fix k t
    assume k: "k < nat (6 - 0)" and "R k t"
    then have w: "width t = 405" and f: "rfloat (env t) = rfloat drift_env"
      and g: "rint (env t) = rint drift_env" and p: "rpos (env t) = 6 * k"
      and o: "list_all (\<lambda>ob. o_x ob = 398 \<and> o_angle ob = pi / 2) (obstacles t)"
      by (simp_all add: R_def)
    have "rpos (env t) + 6 \<le> 36" using k p by simp
    from random_obstacle_drift [OF f g this]
    obtain ob where ob: "random_obstacle 405 (env t) = Inr (ob, (env t)\<lparr>rpos := rpos (env t) + 6\<rparr>)"
      "o_x ob = 398" "o_angle ob = pi / 2" by blast
    define t' where "t' = t\<lparr>env := (env t)\<lparr>rpos := rpos (env t) + 6\<rparr>,
                           obstacles := obstacles t @ [ob]\<rparr>"
    have "R (Suc k) t'"
      using w f g p o ob(2,3) by (simp add: R_def t'_def)
    moreover have "rbind (NewRandomObstacle t) (\<lambda>(ob, s). Inr (s\<lparr>obstacles := obstacles s @ [ob]\<rparr>))
      = Inr t'"
      by (simp add: NewRandomObstacle_def w ob(1) t'_def)
    ultimately show "\<exists>s'. rbind (NewRandomObstacle t)
        (\<lambda>(ob, s). Inr (s\<lparr>obstacles := obstacles s @ [ob]\<rparr>)) = Inr s' \<and> R (Suc k) s'"
      by simp
  qed
  then obtain sB where "SpawnObstacles 6 s0 = Inr sB" "R 6 sB"
    by (auto simp: SpawnObstacles_def)
  moreover have "tick_obstacles s0 = SpawnObstacles 6 s0"
    by (simp add: tick_obstacles_def u l numObstacles_def)
  ultimately show ?thesis unfolding s0_def R_def by auto
qed

lemma drift_brain_new:
  assumes "h 100 = drift_weights"
  shows "drift_brain h (new_brain \<lparr>arr = 100, off = 0, len = numWeights, cap = numWeights\<rparr>) (1 / 2)"
proof -
  have "brain_ok (new_brain \<lparr>arr = 100, off = 0, len = numWeights, cap = numWeights\<rparr>)"
    by (rule new_brain_ok) simp
  then show ?thesis
    unfolding drift_brain_def
    by (simp add: new_brain_def out_block_def NewPerceptron_def view_def slice_nth_def assms
        drift_weights_def numBrainInputs_def memorySize_def inWeightLen_def list_all_iff)
qed

lemma drift_fill:
  assumes "rfloat e = rfloat drift_env" "rpos e = 36"
  shows "rand_fill e 0 numWeights (replicate numWeights 0) = drift_weights"
proof (rule nth_equalityI)
  show "length (rand_fill e 0 numWeights (replicate numWeights 0)) = length drift_weights"
    by (simp add: drift_weights_def numWeights_eq)
next
  fix i assume "i < length (rand_fill e 0 numWeights (replicate numWeights 0))"
  then have i: "i < 950" by (simp add: numWeights_eq)
  then show "rand_fill e 0 numWeights (replicate numWeights 0) ! i = drift_weights ! i"
    by (simp add: nth_rand_fill numWeights_eq assms drift_env_def drift_weights_def
        nth_list_update)
qed

lemma drift_spawn:
  assumes "creatures s = []" "creaturePool s = []" "width s = 405" "height s = 720"
    "rfloat (env s) = rfloat drift_env" "rint (env s) = rint drift_env"
    "rpos (env s) = 36" "hnext (env s) = 100"
  shows "\<exists>s'. for_loop 0 20 (\<lambda>i. SpawnRandomCreature) s = Inr (20, s') \<and>
           s' = s\<lparr>creatures := creatures s', env := env s'\<rparr> \<and>
           length (creatures s') = 20 \<and> drift_crowd (creatures s') \<and>
           heap (env s') 100 = drift_weights"
proof -
  define R where "R = (\<lambda>k (t::Sim). t = s\<lparr>creatures := creatures t, env := env t\<rparr> \<and>
     rfloat (env t) = rfloat drift_env \<and> rint (env t) = rint drift_env \<and>
     rpos (env t) = 36 + 953 * k \<and> hnext (env t) = 100 + k \<and>
     length (creatures t) = k \<and> drift_crowd (creatures t) \<and>
     (0 < k \<longrightarrow> heap (env t) 100 = drift_weights))"
  have "\<exists>s'. for_loop 0 20 (\<lambda>i. SpawnRandomCreature) s = Inr (max 0 20, s') \<and>
              R (nat (20 - 0)) s'"
  proof (rule for_loop_rel [where R = R])
    show "R 0 s" by (simp add: R_def assms drift_crowd_def)
  next
    fix k t
    assume "k < nat (20 - 0)" and r: "R k t"
    define Ct where "Ct = creatures t"
    define Et where "Et = env t"
    have ts: "t = s\<lparr>creatures := Ct, env := Et\<rparr>" using r by (simp add: R_def Ct_def Et_def)
    have f: "rfloat Et = rfloat drift_env" and g: "rint Et = rint drift_env"
      and p: "rpos Et = 36 + 953 * k" and hn: "hnext Et = 100 + k"
      and l: "length Ct = k" and cr: "drift_crowd Ct"
      and hp: "0 < k \<Longrightarrow> heap Et 100 = drift_weights"
      using r by (simp_all add: R_def Ct_def Et_def)
    have pool: "creaturePool t = []" and w: "width t = 405" and h: "height t = 720"
      by (simp_all add: ts assms)
    define c where "c = (\<lambda>col. \<lparr>c_x = spawn_x t (rpos (env t) + numWeights),
                 c_y = spawn_y t (rpos (env t) + numWeights),
                 c_angle = spawn_angle t (rpos (env t) + numWeights),
                 score = 0,
                 color = col,
                 brain = new_brain \<lparr>arr = hnext (env t), off = 0, len = numWeights, cap = numWeights\<rparr>\<rparr>)"
    define E' where "E' = (env t)
                \<lparr>heap := (heap (env t))(hnext (env t) :=
                    rand_fill (env t) 0 numWeights (replicate numWeights 0)),
                 hnext := hnext (env t) + 1,
                 rpos := rpos (env t) + numWeights + 3\<rparr>"
    obtain col where sp: "SpawnRandomCreature t = Inr (t\<lparr>creatures := creatures t @ [c col], env := E'\<rparr>)"
      using SpawnRandomCreature_fresh [OF pool] w h unfolding c_def E'_def
      by (auto simp: creatureRadius_def)
    define t' where "t' = t\<lparr>creatures := creatures t @ [c col], env := E'\<rparr>"
    have 1: "t' = s\<lparr>creatures := creatures t', env := env t'\<rparr>"
      unfolding t'_def by (subst ts) simp
    have 2: "rfloat (env t') = rfloat drift_env" "rint (env t') = rint drift_env"
      "rpos (env t') = 36 + 953 * Suc k" "hnext (env t') = 100 + Suc k"
      "length (creatures t') = Suc k"
      using f g p hn l by (simp_all add: t'_def E'_def Et_def Ct_def numWeights_eq)
    have pos0: "c_x (c col) = 206 \<and> c_y (c col) = 713 \<and> c_angle (c col) = pi / 2" if "k = 0"
      using that p g f w h
      by (simp add: c_def spawn_x_def spawn_y_def spawn_angle_def Et_def numWeights_eq
          drift_env_def creatureRadius_def)
    have posk: "c_x (c col) = 404 \<and> c_y (c col) = 404" if "0 < k"
      using that p g w h
      by (simp add: c_def spawn_x_def spawn_y_def Et_def numWeights_eq
          drift_env_def creatureRadius_def)
    have 3: "drift_crowd (creatures t')"
    proof (cases "k = 0")
      case True
      then have "Ct = []" using l by simp
      moreover have "is_mover (c col)"
        using pos0 [OF True] hn True by (simp add: is_mover_def c_def Et_def)
      ultimately show ?thesis by (simp add: t'_def drift_crowd_def Ct_def [symmetric])
    next
      case False
      then obtain c0 rest where "Ct = c0 # rest" using l by (cases Ct) auto
      then show ?thesis
        using cr posk False by (simp add: t'_def drift_crowd_def Ct_def [symmetric])
    qed
    have 4: "heap (env t') 100 = drift_weights"
    proof (cases "k = 0")
      case True
      have "rand_fill (env t) 0 numWeights (replicate numWeights 0) = drift_weights"
        by (rule drift_fill) (use f p True in \<open>simp_all add: Et_def\<close>)
      then show ?thesis using hn True by (simp add: t'_def E'_def Et_def)
    next
      case False
      then show ?thesis using hp hn by (simp add: t'_def E'_def Et_def)
    qed
    have "R (Suc k) t'" unfolding R_def using 1 2 3 4 by blast
    then show "\<exists>s'. SpawnRandomCreature t = Inr s' \<and> R (Suc k) s'"
      using sp by (simp add: t'_def)
  qed
  then show ?thesis unfolding R_def by auto
qed

lemma shuffleCreatures_env:
  assumes "shuffleCreatures s = Inr s'"
  shows "env_same (env s) (env s')"
proof (rule forM_preserves [OF assms [unfolded shuffleCreatures_def],
        where I = "\<lambda>t. env_same (env s) (env t)"])
  show "env_same (env s) (env s)" by simp
next
  fix i t t'
  assume t: "env_same (env s) (env t)"
    and b: "rbind (Intn (int i + 1) (env t)) (\<lambda>(j, e).
               Inr (t\<lparr>creatures := (creatures t)[i := creatures t ! nat j,
                                                 nat j := creatures t ! i],
                      env := e\<rparr>)) = Inr t'"
  obtain j e where j: "Intn (int i + 1) (env t) = Inr (j, e)" and t': "env t' = e"
    using b by (auto simp: rbind_eq_Inr)
  show "env_same (env s) (env t')"
    using env_same_trans [OF t Intn_env [OF j]] t' by simp
qed

lemma ideal_obstacles_iff:
  "foldl (\<lambda>f ob. draw_obstacle ideal_draw B ob f) f obs x y
   \<longleftrightarrow> f x y \<or> list_ex (\<lambda>ob. on_stroke B ob x y) obs"
  by (induction obs arbitrary: f) (auto simp: ideal_draw_def)

lemma on_stroke_far:
  assumes "o_x ob = 398" "o_angle ob = pi / 2" "x \<le> 400"
  shows "\<not> on_stroke 16 ob x y"
proof
  assume a: "on_stroke 16 ob x y"
  define px where "px = real_of_int x + 1 / 2 - (16 + 398)"
  obtain q :: real where "px\<^sup>2 + q\<^sup>2 \<le> (3 / 2)\<^sup>2"
    using a unfolding on_stroke_def Let_def px_def assms(1,2) obstacleWidth_def
    by (auto simp: cos_pi_half)
  then have "px\<^sup>2 \<le> (3 / 2)\<^sup>2"
    using zero_le_power2 [of q] by linarith
  then have "\<bar>px\<bar> \<le> 3 / 2" by (simp add: abs_le_square_iff [symmetric])
  moreover have "px \<le> - 27 / 2" using assms(3) by (simp add: px_def)
  ultimately show False by simp
qed

lemma tanh_half_bounds: "1 / 4 \<le> tanh (1 / 2 :: real)" "tanh (1 / 2 :: real) < 1"
proof -
  define u :: real where "u = exp (1 / 2)"
  have u: "0 < u" by (simp add: u_def)
  have "u * u = exp 1" unfolding u_def by (simp add: exp_add [symmetric])
  moreover have "(2::real) \<le> exp 1" using exp_ge_add_one_self [of 1] by simp
  ultimately have uu: "2 \<le> u * u" by simp
  have t: "tanh (1 / 2 :: real) = (u * u - 1) / (u * u + 1)"
  proof -
    have "tanh (1 / 2 :: real) = (exp (1 / 2) - exp (- (1 / 2))) / (exp (1 / 2) + exp (- (1 / 2)))"
      by (rule tanh_altdef)
    also have "\<dots> = (u - inverse u) / (u + inverse u)"
      unfolding u_def exp_minus ..
    also have "\<dots> = (u * (u - inverse u)) / (u * (u + inverse u))"
      using u by simp
    also have "u * (u - inverse u) = u * u - 1"
      using u by (simp add: right_diff_distrib)
    also have "u * (u + inverse u) = u * u + 1"
      using u by (simp add: distrib_left)
    finally show ?thesis .
  qed
  show "1 / 4 \<le> tanh (1 / 2 :: real)"
    unfolding t using uu by (simp add: field_simps)
  show "tanh (1 / 2 :: real) < 1" by (rule tanh_real_lt_1)
qed

lemma drift_run:
  "\<exists>s1 s'. tick_prepare ideal_draw drift_sim = Inr s1 \<and>
     DoTick ideal_draw drift_sim = Inr s' \<and>
     list_all (\<lambda>c. (c_x c = 206 \<and> c_y c = 713) \<or> (c_x c = 404 \<and> c_y c = 404)) (creatures s1) \<and>
     creatures s' \<noteq> [] \<and>
     list_all (\<lambda>c. c_x c = 206 \<and> c_y c = 713 + 4 * tanh (1 / 2) \<and> creature_dead s1 c)
       (creatures s')"
proof -
  define s0 where "s0 = tick_draw_arena ideal_draw drift_sim"
  obtain sB where sB: "tick_obstacles s0 = Inr sB" and pB: "rpos (env sB) = 36"
    and oB: "list_all (\<lambda>ob. o_x ob = 398 \<and> o_angle ob = pi / 2) (obstacles sB)"
    using drift_obstacles [of ideal_draw] unfolding s0_def by blast
  define Ob where "Ob = obstacles sB"
  define Eb where "Eb = env sB"
  have fB: "sB = s0\<lparr>obstacles := Ob, env := Eb\<rparr>"
    using tick_obstacles_frame [OF sB] unfolding Ob_def Eb_def .
  have eB: "rfloat Eb = rfloat drift_env" "rint Eb = rint drift_env" "hnext Eb = 100"
    using tick_obstacles_env [OF sB]
    by (simp_all add: env_same_def Eb_def s0_def tick_draw_arena_def drift_sim_def NewSim_def
        drift_env_def)
  define sO where "sO = tick_draw_obstacles ideal_draw sB"
  define Fo where "Fo = frame sO"
  have fO: "sO = s0\<lparr>obstacles := Ob, env := Eb, frame := Fo\<rparr>"
    unfolding Fo_def unfolding sO_def tick_draw_obstacles_def by (subst (2) fB) simp
  have s0: "creatures s0 = []" "creaturePool s0 = []" "bestCreatures s0 = []"
    "width s0 = 405" "height s0 = 720" "tickCounter s0 = 0" "borderWidthf s0 = 16"
    "brainInputs s0 = replicate numBrainInputs 0"
    by (simp_all add: s0_def tick_draw_arena_def drift_sim_def NewSim_def)
  have arena: "frame s0 x y \<longleftrightarrow> x < 16 \<or> 421 \<le> x \<or> y < 16 \<or> 736 \<le> y" for x y
    by (simp add: s0_def tick_draw_arena_def drift_sim_def NewSim_def ideal_draw_def)
  have Fo: "Fo x y \<longleftrightarrow> frame s0 x y \<or> list_ex (\<lambda>ob. on_stroke 16 ob x y) Ob" for x y
    unfolding Fo_def sO_def tick_draw_obstacles_def
    by (subst (1 2 3) fB) (simp add: ideal_obstacles_iff s0)
  obtain sC where lC: "for_loop 0 20 (\<lambda>i. SpawnRandomCreature) sO = Inr (20, sC)"
    and fC0: "sC = sO\<lparr>creatures := creatures sC, env := env sC\<rparr>"
    and nC: "length (creatures sC) = 20" and cC: "drift_crowd (creatures sC)"
    and hC: "heap (env sC) 100 = drift_weights"
    using drift_spawn [of sO] pB eB unfolding fO by (auto simp: s0 Eb_def)
  define Cc where "Cc = creatures sC"
  define Ec where "Ec = env sC"
  have fC: "sC = s0\<lparr>obstacles := Ob, env := Ec, frame := Fo, creatures := Cc\<rparr>"
    by (subst fC0, subst fO) (simp add: Cc_def Ec_def)
  have sO: "creatures sO = []" "bestCreatures sO = []" "tickCounter sO = 0"
    by (subst fO, simp add: s0)+
  have "SpawnCreatures 20 sO = Inr sC"
    unfolding SpawnCreatures_def Let_def by (simp add: sO lC)
  moreover have "go_mod 0 evolutionCycleTicks = 0"
    by (simp add: go_mod_def go_div_def)
  ultimately have evo: "tick_evolution sO = Inr sC"
    unfolding tick_evolution_def by (simp add: sO maxCreatures_def minCreatures_def)
  have flo: "tick_floor sC = Inr sC"
    using nC by (simp add: tick_floor_def minCreatures_def)
  obtain s1 where s1: "shuffleCreatures sC = Inr s1"
    using shuffleCreatures_ok by blast
  define C1 where "C1 = creatures s1"
  define E1 where "E1 = env s1"
  have f1: "s1 = s0\<lparr>obstacles := Ob, env := E1, frame := Fo, creatures := C1\<rparr>"
    by (subst shuffleCreatures_frame(1) [OF s1], subst fC) (simp add: C1_def E1_def)
  have set1: "set C1 = set Cc"
    using shuffleCreatures_frame(2) [OF s1] by (simp add: C1_def Cc_def)
  have h1: "heap E1 100 = drift_weights"
    using shuffleCreatures_env [OF s1] hC by (simp add: env_same_def E1_def)
  have prep: "tick_prepare ideal_draw drift_sim = Inr s1"
    unfolding tick_prepare_def
    by (simp add: sB [unfolded s0_def] evo [unfolded sO_def] flo s1)
  obtain c0 rest where Cc: "Cc = c0 # rest" "is_mover c0"
    "list_all (\<lambda>c. c_x c = 404 \<and> c_y c = 404) rest"
    using cC nC unfolding Cc_def [symmetric] drift_crowd_def by (cases Cc) auto
  have free: "\<not> Fo x y" if "16 \<le> x" "x \<le> 400" "16 \<le> y" "y < 736" for x y
  proof -
    have "\<not> on_stroke 16 ob x y" if "ob \<in> set Ob" for ob
      using oB that \<open>x \<le> 400\<close> by (intro on_stroke_far) (auto simp: list_all_iff Ob_def)
    then show ?thesis using that by (simp add: Fo arena list_ex_iff)
  qed
  have alive: "\<not> creature_dead s1 c" if "is_mover c" for c
  proof -
    have "c_x c = 206" "c_y c = 713" using that by (simp_all add: is_mover_def)
    then show ?thesis
      unfolding creature_dead_def Let_def
      by (subst (1 2 3 4 5 6 7) f1)
        (auto simp: s0 list_ex_iff go_int_def creatureRadius_def free)
  qed
  have dead: "creature_dead s1 c" if "c_x c = 404" "c_y c = 404" for c
  proof (rule creature_deadI [where cx = 421 and cy = 420])
    show "frame s1 421 420" by (subst f1) (simp add: Fo arena)
  qed (subst f1, simp add: s0 that go_int_def creatureRadius_def creatureRadiusf_def)+
  define S where "S = filter (\<lambda>c. \<not> creature_dead s1 c) C1"
  have S: "is_mover c" if "c \<in> set S" for c
  proof -
    have "c \<in> set Cc" "\<not> creature_dead s1 c" using that set1 by (auto simp: S_def)
    then show ?thesis using Cc dead by (auto simp: list_all_iff)
  qed
  have "c0 \<in> set S" using set1 Cc(1,2) alive by (auto simp: S_def)
  then have Sne: "S \<noteq> []" by auto
  define sX where "sX = death_pass s1"
  have cX: "creatures sX = S"
    by (simp add: sX_def death_pass_creatures S_def C1_def)
  define Px where "Px = creaturePool sX"
  define Bx where "Bx = bestCreatures sX"
  have fX: "sX = s1\<lparr>creatures := S, creaturePool := Px, bestCreatures := Bx\<rparr>"
    using death_pass_frame [of s1] unfolding sX_def [symmetric] cX Px_def Bx_def .
  have eX: "env sX = E1" "brainInputs sX = replicate numBrainInputs 0"
    by (subst fX, subst f1, simp add: s0)+
  have "list_all (\<lambda>c. drift_brain (heap (env sX)) (brain c) (1 / 2)) (creatures sX)"
    unfolding cX eX list_all_iff
  proof
    fix c assume "c \<in> set S"
    then have "brain c = new_brain \<lparr>arr = 100, off = 0, len = numWeights, cap = numWeights\<rparr>"
      using S by (simp add: is_mover_def)
    then show "drift_brain (heap E1) (brain c) (1 / 2)"
      using drift_brain_new [of "heap E1"] h1 by simp
  qed
  moreover have "length (brainInputs sX) = numBrainInputs" by (simp add: eX)
  ultimately obtain s2 where s2: "action_pass sX = Inr s2"
    and d2: "list_all2 (drifted (1 / 2)) (creatures sX) (creatures s2)"
    using action_pass_drift by blast
  have ne2: "creatures s2 \<noteq> []"
    using list_all2_lengthD [OF d2] Sne cX by auto
  have after: "c_x c' = 206 \<and> c_y c' = 713 + 4 * tanh (1 / 2)" if "c' \<in> set (creatures s2)" for c'
  proof -
    from that obtain i where i: "i < length (creatures s2)" "creatures s2 ! i = c'"
      by (auto simp: in_set_conv_nth)
    have l: "length S = length (creatures s2)"
      using list_all2_lengthD [OF d2] cX by simp
    have "S ! i \<in> set S" using i(1) l by simp
    then have m: "c_x (S ! i) = 206" "c_y (S ! i) = 713" "c_angle (S ! i) = pi / 2"
      using S [of "S ! i"] unfolding is_mover_def by blast+
    have "drifted (1 / 2) (S ! i) c'"
      using list_all2_nthD2 [OF d2 i(1)] cX i(2) by simp
    then have "c_x c' = 206 + cos (pi / 2) * tanh (1 / 2) * 4"
      "c_y c' = 713 + sin (pi / 2) * tanh (1 / 2) * 4"
      unfolding drifted_def m by blast+
    then show ?thesis by simp
  qed
  have dead2: "creature_dead s1 c'" if "c' \<in> set (creatures s2)" for c'
  proof -
    define t :: real where "t = tanh (1 / 2)"
    have t: "1 / 4 \<le> t" "t < 1" unfolding t_def by (rule tanh_half_bounds)+
    have x: "c_x c' = 206" and y: "c_y c' = 713 + 4 * t"
      using after [OF that] by (simp_all add: t_def)
    have B: "borderWidthf s1 = 16" by (subst f1) (simp add: s0)
    have fl: "730 \<le> \<lfloor>729 + 4 * t\<rfloor>" "\<lfloor>729 + 4 * t\<rfloor> \<le> 732"
      using t by (simp_all add: le_floor_iff floor_le_iff)
    show ?thesis
    proof (rule creature_deadI [where cx = 222 and cy = 736])
      show "frame s1 222 736" by (subst f1) (simp add: Fo arena)
      show "(borderWidthf s1 + c_x c' - real_of_int 222)\<^sup>2
            + (borderWidthf s1 + c_y c' - real_of_int 736)\<^sup>2 \<le> creatureRadiusf\<^sup>2"
      proof -
        have "\<bar>4 * t - 7\<bar> \<le> \<bar>6 :: real\<bar>" using t by simp
        then have sq: "(4 * t - 7)\<^sup>2 \<le> (6 :: real)\<^sup>2" by (simp only: abs_le_square_iff)
        have "borderWidthf s1 + c_x c' - real_of_int 222 = 0" by (simp add: B x)
        moreover have "borderWidthf s1 + c_y c' - real_of_int 736 = 4 * t - 7" by (simp add: B y)
        moreover have "creatureRadiusf = 6" by (simp add: creatureRadiusf_def creatureRadius_def)
        ultimately show ?thesis using sq by simp
      qed
    qed (use fl t in \<open>simp_all add: B x y go_int_def creatureRadius_def\<close>)
  qed
  obtain s' where s': "DoTick ideal_draw drift_sim = Inr s'" "creatures s' = creatures s2"
    using DoTick_ok [OF prep s2 [unfolded sX_def]] by blast
  have "list_all (\<lambda>c. (c_x c = 206 \<and> c_y c = 713) \<or> (c_x c = 404 \<and> c_y c = 404)) (creatures s1)"
    unfolding C1_def [symmetric] list_all_iff set1 using Cc
    by (auto simp: list_all_iff is_mover_def)
  then show ?thesis
    using prep s' ne2 after dead2 by (auto simp: list_all_iff)
qed

lemma fold_best_ok:
  assumes "list_all (\<lambda>t. numWeights \<le> len (t_weights t)) best" "numWeights \<le> len ws"
  shows "list_all (\<lambda>t. numWeights \<le> len (t_weights t)) (fold_best h best ws sc)"
proof -
  have "list_all (\<lambda>t. numWeights \<le> len (t_weights t)) (best[k := (best ! k)\<lparr>t_score := sc\<rparr>])" for k
  proof (cases "k < length best")
    case True
    then have "numWeights \<le> len (t_weights (best ! k))"
      using assms(1) by (simp add: list_all_length)
    then show ?thesis
      using assms(1) True by (auto simp: list_all_length nth_list_update)
  next
    case False
    then have "best[k := (best ! k)\<lparr>t_score := sc\<rparr>] = best"
      by (intro list_update_beyond) simp
    then show ?thesis using assms(1) by simp
  qed
  then show ?thesis using assms by (simp add: fold_best_def Let_def)
qed

lemma bury_sim_ok:
  assumes "sim_ok s" "i < length (creatures s)"
  shows "sim_ok (bury i s)"
proof -
  have c: "creature_ok (creatures s ! i)"
    using assms by (simp add: sim_ok_def list_all_length)
  have "list_all creature_ok (take i (creatures s) @ drop (i + 1) (creatures s))"
    using assms(1) by (auto simp: sim_ok_def list_all_iff dest: in_set_takeD in_set_dropD)
  moreover have "list_all (\<lambda>t. numWeights \<le> len (t_weights t))
     (fold_best (heap (env s)) (bestCreatures s) (GetWeights (brain (creatures s ! i)))
        (score (creatures s ! i)))"
    using assms(1) c by (intro fold_best_ok) (simp_all add: sim_ok_def creature_ok_def GetWeights_def)
  ultimately show ?thesis
    using assms(1) c by (simp add: sim_ok_def bury_def)
qed

lemma death_loop_sim_ok: "sim_ok s \<Longrightarrow> sim_ok (death_loop i s)"
proof (induction i s rule: death_loop.induct)
  case (1 i s)
  show ?case
  proof (cases "i < length (creatures s)")
    case False
    then show ?thesis using 1(3) by (subst death_loop.simps) simp
  next
    case True
    show ?thesis
    proof (cases "creature_dead s (creatures s ! i)")
      case dead: True
      have "sim_ok (death_loop i (bury i s))"
        using 1(1) [OF True dead] bury_sim_ok [OF 1(3) True] by simp
      then show ?thesis using True dead by (subst death_loop.simps) simp
    next
      case alive: False
      have "sim_ok (death_loop (i + 1) s)" using 1(2) [OF True alive 1(3)] .
      then show ?thesis using True alive by (subst death_loop.simps) simp
    qed
  qed
qed

lemma GetAction_ok:
  assumes "creature_ok c" "length (brainInputs s) = numBrainInputs"
  shows "\<exists>a b bi. GetAction c s = Inr (a, c\<lparr>brain := b\<rparr>, s\<lparr>brainInputs := bi\<rparr>) \<and>
           length bi = numBrainInputs \<and> brain_ok b \<and> allWeights b = allWeights (brain c)"
proof -
  define I where "I = (\<lambda>t. \<exists>bi. t = s\<lparr>brainInputs := bi\<rparr> \<and> length bi = numBrainInputs)"
  have "\<exists>s'. forM [0..<numBrainInputs]
              (\<lambda>i s. let angle = pi * 2 * real i / real numBrainInputs in
                 case DistanceToNearest s c angle of
                   None \<Rightarrow> Inl Diverges
                 | Some d \<Rightarrow> rbind (upd (brainInputs s) i d) (\<lambda>bi.
                             Inr (s\<lparr>brainInputs := bi\<rparr>))) s = Inr s' \<and> I s'"
  proof (rule forM_invariant [where I = I])
    show "I s" unfolding I_def using assms(2) by (intro exI [of _ "brainInputs s"]) simp
  next
    fix i t
    assume i: "i \<in> set [0..<numBrainInputs]" and "I t"
    then obtain bi where t: "t = s\<lparr>brainInputs := bi\<rparr>" "length bi = numBrainInputs"
      by (auto simp: I_def)
    obtain d where d: "DistanceToNearest t c (pi * 2 * real i / real numBrainInputs) = Some d"
      using DistanceToNearest_total by blast
    have "I (s\<lparr>brainInputs := bi[i := d]\<rparr>)"
      unfolding I_def using t(2) by (intro exI [of _ "bi[i := d]"]) simp
    then show "\<exists>s'. (let angle = pi * 2 * real i / real numBrainInputs in
                 case DistanceToNearest t c angle of
                   None \<Rightarrow> Inl Diverges
                 | Some d \<Rightarrow> rbind (upd (brainInputs t) i d) (\<lambda>bi.
                             Inr (t\<lparr>brainInputs := bi\<rparr>))) = Inr s' \<and> I s'"
      using d i t by (simp add: Let_def)
  qed
  then obtain bi where f: "forM [0..<numBrainInputs]
              (\<lambda>i s. let angle = pi * 2 * real i / real numBrainInputs in
                 case DistanceToNearest s c angle of
                   None \<Rightarrow> Inl Diverges
                 | Some d \<Rightarrow> rbind (upd (brainInputs s) i d) (\<lambda>bi.
                             Inr (s\<lparr>brainInputs := bi\<rparr>))) s = Inr (s\<lparr>brainInputs := bi\<rparr>)"
    and bi: "length bi = numBrainInputs"
    by (auto simp: I_def)
  have ok: "brain_ok (brain c)" using assms(1) by (simp add: creature_ok_def)
  obtain ys os where st: "length ys = 25" "length os = 14"
    "Step (heap (env s)) (brain c) bi
     = Inr ((os ! 0, os ! 1), (brain c)\<lparr>b_x := Step_x (brain c) bi, inOutput := ys, b_output := os\<rparr>)"
    using Step_eq [OF ok bi] by blast
  define b where "b = (brain c)\<lparr>b_x := Step_x (brain c) bi, inOutput := ys, b_output := os\<rparr>"
  have "brain_ok b"
    using ok bi st(1,2) brain_ok_lengths [OF ok]
    by (simp add: b_def brain_ok_def Step_x_def numBrainInputs_def)
  moreover have "allWeights b = allWeights (brain c)" by (simp add: b_def)
  moreover have "GetAction c s = Inr ((os ! 0, os ! 1), c\<lparr>brain := b\<rparr>, s\<lparr>brainInputs := bi\<rparr>)"
    unfolding GetAction_def f using st(3) by (simp add: b_def)
  ultimately show ?thesis using bi by blast
qed

lemma act_ok:
  assumes "sim_ok s" "i < length (creatures s)"
  shows "\<exists>s'. act i s = Inr s' \<and> sim_ok s' \<and> length (creatures s') = length (creatures s)"
proof -
  define c where "c = creatures s ! i"
  have c: "creature_ok c" using assms by (simp add: sim_ok_def list_all_length c_def)
  have l: "length (brainInputs s) = numBrainInputs" using assms(1) by (simp add: sim_ok_def)
  obtain turn move b bi where
    g: "GetAction c s = Inr ((turn, move), c\<lparr>brain := b\<rparr>, s\<lparr>brainInputs := bi\<rparr>)"
    and bi: "length bi = numBrainInputs" and b: "brain_ok b" "allWeights b = allWeights (brain c)"
    using GetAction_ok [OF c l] by (metis surj_pair)
  define c' where "c' = (let c = c\<lparr>brain := b, c_angle := c_angle c + turn / 8\<rparr>;
         c = c\<lparr>c_x := c_x c + cos (c_angle c) * move * 4\<rparr>;
         c = c\<lparr>c_y := c_y c + sin (c_angle c) * move * 4\<rparr>
     in (if score c < MaxInt64 then c\<lparr>score := score c + 1\<rparr> else c))"
  have a: "act i s = Inr (s\<lparr>brainInputs := bi, creatures := (creatures s)[i := c']\<rparr>)"
    unfolding act_def using assms(2) g by (simp add: c_def [symmetric] c'_def Let_def)
  have "creature_ok c'"
    using c b by (simp add: creature_ok_def c'_def Let_def)
  moreover have "set ((creatures s)[i := c']) \<subseteq> insert c' (set (creatures s))"
    by (rule set_update_subset_insert)
  ultimately have "list_all creature_ok ((creatures s)[i := c'])"
    using assms(1) by (auto simp: sim_ok_def list_all_iff)
  then have "sim_ok (s\<lparr>brainInputs := bi, creatures := (creatures s)[i := c']\<rparr>)"
    using assms(1) bi by (simp add: sim_ok_def)
  then show ?thesis using a by simp
qed

lemma action_pass_ok:
  assumes "sim_ok s"
  shows "\<exists>s'. action_pass s = Inr s' \<and> sim_ok s'"
proof -
  define I where "I = (\<lambda>t. sim_ok t \<and> length (creatures t) = length (creatures s))"
  have "\<exists>s'. forM [0..<length (creatures s)] act s = Inr s' \<and> I s'"
  proof (rule forM_invariant [where I = I])
    show "I s" by (simp add: I_def assms)
  next
    fix i t
    assume "i \<in> set [0..<length (creatures s)]" "I t"
    then have "sim_ok t" "i < length (creatures t)" by (simp_all add: I_def)
    from act_ok [OF this] show "\<exists>s'. act i t = Inr s' \<and> I s'"
      using \<open>I t\<close> by (auto simp: I_def)
  qed
  then show ?thesis by (auto simp: action_pass_def I_def)
qed

lemma update_top_sim_ok:
  assumes "sim_ok s" "update_top s = Inr s'"
  shows "sim_ok s'"
proof -
  define P where "P = (\<lambda>t :: TopCreature. numWeights \<le> len (t_weights t))"
  have f: "list_all P (foldl (\<lambda>best c. fold_best h best (GetWeights (brain c)) (score c)) best cs)"
    if "list_all P best" "list_all creature_ok cs"
    for h and best :: "TopCreature list" and cs :: "Creature list"
    using that
  proof (induction cs arbitrary: best)
    case Nil
    then show ?case by simp
  next
    case (Cons c cs)
    have "list_all P (fold_best h best (GetWeights (brain c)) (score c))"
      unfolding P_def using Cons.prems
      by (intro fold_best_ok) (simp_all add: P_def creature_ok_def GetWeights_def)
    then show ?case using Cons by simp
  qed
  define best where "best = foldl (\<lambda>best c. fold_best (heap (env s)) best (GetWeights (brain c)) (score c))
                   (bestCreatures s) (creatures s)"
  have b: "list_all P best"
    unfolding best_def using assms(1) by (intro f) (simp_all add: sim_ok_def P_def)
  obtain best' where t: "truncate_best (sort_best best) = Inr best'"
    and s': "s' = s\<lparr>bestCreatures := best'\<rparr>"
    using assms(2) unfolding update_top_def best_def [symmetric] Let_def
    by (auto simp: rbind_eq_Inr)
  have "list_all P (sort_best best)" using b by (simp add: sort_best_def list_all_iff)
  moreover have "set best' \<subseteq> set (sort_best best)"
  proof (cases "int (length (sort_best best)) > maxBestCreatures")
    case True
    then have "truncate_loop (int (length (sort_best best)) - 1) (sort_best best)
        = Inr (take (nat maxCreatures + 1) (sort_best best))"
      by (intro truncate_loop_eq) (simp_all add: maxCreatures_eq)
    then have "best' = take (nat maxCreatures + 1) (sort_best best)"
      using t True by (simp add: truncate_best_def)
    then show ?thesis by (auto dest: in_set_takeD)
  next
    case False
    then show ?thesis using t by (simp add: truncate_best_def)
  qed
  ultimately have "list_all P best'" by (auto simp: list_all_iff)
  then show ?thesis using assms(1) by (simp add: s' sim_ok_def P_def)
qed


lemma shuffleCreatures_sim_ok:
  assumes "sim_ok s" "shuffleCreatures s = Inr s'"
  shows "sim_ok s'"
proof -
  define C where "C = creatures s'"
  define E where "E = env s'"
  have "s' = s\<lparr>creatures := C, env := E\<rparr>"
    using shuffleCreatures_frame(1) [OF assms(2)] unfolding C_def E_def .
  moreover have "list_all creature_ok C"
    using shuffleCreatures_frame(2) [OF assms(2)] assms(1)
    by (simp add: C_def sim_ok_def list_all_iff)
  ultimately show ?thesis using assms(1) by (simp add: sim_ok_def)
qed

lemma tick_prepare_sim_ok:
  assumes "sim_ok s" "tick_prepare D s = Inr s1"
  shows "sim_ok s1"
proof -
  obtain sB sC sD where sB: "tick_obstacles (tick_draw_arena D s) = Inr sB"
    and sC: "tick_evolution (tick_draw_obstacles D sB) = Inr sC"
    and sD: "tick_floor sC = Inr sD"
    and s1: "shuffleCreatures sD = Inr s1"
    using assms(2) unfolding tick_prepare_def rbind_eq_Inr by blast
  define Ob where "Ob = obstacles sB"
  define Eb where "Eb = env sB"
  have fB: "sB = (tick_draw_arena D s)\<lparr>obstacles := Ob, env := Eb\<rparr>"
    using tick_obstacles_frame [OF sB] unfolding Ob_def Eb_def .
  have okB: "sim_ok (tick_draw_obstacles D sB)"
    unfolding tick_draw_obstacles_def by (subst fB) (simp add: tick_draw_arena_def assms(1))
  obtain k where k: "spawned k (tick_draw_obstacles D sB) sC"
    using tick_evolution_spawned [OF okB] sC by auto
  have okC: "sim_ok sC" using spawned_sim_ok(1) [OF okB k] .
  obtain k' where k': "spawned k' sC sD"
    using tick_floor_spawned [OF okC] sD by auto
  have "sim_ok sD" using spawned_sim_ok(1) [OF okC k'] .
  then show ?thesis using s1 by (rule shuffleCreatures_sim_ok)
qed

lemma DoTick_sim_ok:
  assumes "sim_ok s" "DoTick D s = Inr s'"
  shows "sim_ok s'"
proof -
  obtain s1 s2 s3 where a: "tick_prepare D s = Inr s1" "action_pass (death_pass s1) = Inr s2"
    "update_top s2 = Inr s3" "s' = (tick_draw_creatures D s3)\<lparr>tickCounter := tickCounter s3 + 1\<rparr>"
    using assms(2) unfolding DoTick_def rbind_eq_Inr by auto
  have "sim_ok s1" using tick_prepare_sim_ok [OF assms(1) a(1)] .
  then have "sim_ok (death_pass s1)" unfolding death_pass_def by (rule death_loop_sim_ok)
  then obtain t where "action_pass (death_pass s1) = Inr t" "sim_ok t"
    using action_pass_ok by blast
  then have "sim_ok s2" using a(2) by simp
  then have "sim_ok s3" using a(3) by (rule update_top_sim_ok)
  then show ?thesis by (simp add: a(4) tick_draw_creatures_def)
qed

lemma DoTick_total:
  assumes "sim_ok s" "\<And>p. rfloat (env s) p \<noteq> 1 / 2"
  shows "\<exists>s'. DoTick D s = Inr s' \<and> sim_ok s'"
proof -
  obtain s1 where s1: "tick_prepare D s = Inr s1"
    using tick_prepare_ok [OF assms] by blast
  have "sim_ok s1" using tick_prepare_sim_ok [OF assms(1) s1] .
  then have "sim_ok (death_pass s1)" unfolding death_pass_def by (rule death_loop_sim_ok)
  then obtain s2 where s2: "action_pass (death_pass s1) = Inr s2"
    using action_pass_ok by blast
  obtain s' where "DoTick D s = Inr s'" using DoTick_ok [OF s1 s2] by blast
  then show ?thesis using DoTick_sim_ok [OF assms(1)] by blast
qed

lemma reachable_sim_ok: "reachable D s \<Longrightarrow> sim_ok s"
proof (induction rule: reachable.induct)
  case (start e)
  show ?case by (simp add: sim_ok_def NewSim_def creatureRadius_def)
next
  case (paint s s')
  then show ?case using DoTick_sim_ok by blast
next
  case (touch s s')
  obtain t where "SpawnRandomCreature s = Inr t" "spawned 1 s t"
    using SpawnRandomCreature_spawned [OF touch.IH] by blast
  then show ?case using touch.hyps(2) spawned_sim_ok(1) [OF touch.IH] by auto
qed

text \<open>
  Claim C2, as the code has it: in a simulation that satisfies the running invariant (every
  reachable state does, lemma \<open>reachable_sim_ok\<close>), the population floor holds in the state
  \<open>s1\<close> in which the death pass starts, after the floor check and the shuffle; the creatures
  after the tick are the survivors of the death pass on \<open>s1\<close>, so their number is the number
  of creatures of \<open>s1\<close> that are not dead, which can be smaller than \<open>minCreatures\<close>. In the
  first tick of \<open>example_sim\<close> every creature is spawned at \<open>(404, 404)\<close>, six pixels from
  the right border band, and none is left after the tick.
\<close>

theorem population_floor_before_death_pass:
  assumes "sim_ok s" "DoTick D s = Inr s'"
  shows "\<exists>s1. tick_prepare D s = Inr s1 \<and>
           minCreatures \<le> int (length (creatures s1)) \<and>
           length (creatures s') = length (filter (\<lambda>c. \<not> creature_dead s1 c) (creatures s1))"
proof -
  obtain s1 s2 where a: "tick_prepare D s = Inr s1" "action_pass (death_pass s1) = Inr s2"
    "creatures s' = creatures s2"
    using DoTick_state [OF assms(2)] by blast
  have "minCreatures \<le> int (length (creatures s1))"
    using tick_prepare_state [OF assms(1) a(1)] by blast
  moreover have "length (creatures s') = length (filter (\<lambda>c. \<not> creature_dead s1 c) (creatures s1))"
    using action_pass_length [OF a(2)] by (simp add: a(3) death_pass_creatures)
  ultimately show ?thesis using a(1) by blast
qed

theorem population_floor_before_death_pass_witness:
  "sim_ok example_sim \<and>
   (\<exists>s' s1. DoTick ideal_draw example_sim = Inr s' \<and>
      tick_prepare ideal_draw example_sim = Inr s1 \<and>
      minCreatures \<le> int (length (creatures s1)) \<and>
      length (creatures s') = length (filter (\<lambda>c. \<not> creature_dead s1 c) (creatures s1)))"
proof -
  obtain s' where s': "DoTick ideal_draw example_sim = Inr s'"
    using example_sim_all_die by blast
  from population_floor_before_death_pass [OF sim_ok_example_sim s'] s' sim_ok_example_sim
  show ?thesis by blast
qed

theorem population_below_floor_after_tick:
  "reachable ideal_draw example_sim \<and>
   rbind (DoTick ideal_draw example_sim) (\<lambda>s'. Inr (int (length (creatures s')) < minCreatures))
   = Inr True"
proof -
  obtain s' where "DoTick ideal_draw example_sim = Inr s'" "creatures s' = []"
    using example_sim_all_die by blast
  moreover have "reachable ideal_draw example_sim"
    unfolding example_sim_def by (rule reachable.start)
  ultimately show ?thesis by (simp add: minCreatures_def)
qed

lemma far_off_screen_obstacles [simp]:
  "far_off_screen (s\<lparr>obstacles := obs\<rparr>) = far_off_screen s"
  by (rule ext) (simp add: far_off_screen_def)

lemma update_obstacles_obstacles:
  "obstacles (update_obstacles i s)
   = take i (obstacles s)
     @ filter (\<lambda>ob. \<not> far_off_screen s ob) (map move_obstacle (drop i (obstacles s)))"
proof (induction i s rule: update_obstacles.induct)
  case (1 i s)
  show ?case
  proof (cases "i < length (obstacles s)")
    case False
    then have "update_obstacles i s = s" by (subst update_obstacles.simps) simp
    then show ?thesis using False by simp
  next
    case True
    have d: "drop i (obstacles s) = obstacles s ! i # drop (Suc i) (obstacles s)"
      using True by (simp add: Cons_nth_drop_Suc)
    show ?thesis
    proof (cases "far_off_screen s (move_obstacle (obstacles s ! i))")
      case far: True
      define s1 where "s1 = s\<lparr>obstacles := take i (obstacles s) @ drop (i + 1) (obstacles s)\<rparr>"
      have e: "update_obstacles i s = update_obstacles i s1"
        using True far unfolding s1_def by (subst update_obstacles.simps) simp
      have t: "take i (obstacles s1) = take i (obstacles s)"
        "drop i (obstacles s1) = drop (Suc i) (obstacles s)"
        using True by (simp_all add: s1_def)
      have f: "far_off_screen s1 = far_off_screen s" by (simp add: s1_def)
      show ?thesis
        unfolding e 1(1) [OF True far, folded s1_def] t f d using far by simp
    next
      case near: False
      define s1 where "s1 = s\<lparr>obstacles := (obstacles s)[i := move_obstacle (obstacles s ! i)]\<rparr>"
      have e: "update_obstacles i s = update_obstacles (i + 1) s1"
        using True near unfolding s1_def by (subst update_obstacles.simps) simp
      have t: "take (i + 1) (obstacles s1) = take i (obstacles s) @ [move_obstacle (obstacles s ! i)]"
        "drop (i + 1) (obstacles s1) = drop (Suc i) (obstacles s)"
        using True by (simp_all add: s1_def take_Suc_conv_app_nth)
      have f: "far_off_screen s1 = far_off_screen s" by (simp add: s1_def)
      show ?thesis
        unfolding e 1(2) [OF True near, folded s1_def] t f d using near by simp
    qed
  qed
qed

lemma SpawnObstacles_obstacles:
  assumes "SpawnObstacles n s = Inr s'"
  shows "\<exists>new. obstacles s' = obstacles s @ new"
proof -
  obtain j where l: "for_loop 0 n
              (\<lambda>i s. rbind (NewRandomObstacle s) (\<lambda>(ob, s).
                      Inr (s\<lparr>obstacles := obstacles s @ [ob]\<rparr>))) s = Inr (j, s')"
    using assms by (auto simp: SpawnObstacles_def rbind_eq_Inr)
  show ?thesis
  proof (rule for_loop_preserves [OF l, where I = "\<lambda>t. \<exists>new. obstacles t = obstacles s @ new"])
    show "\<exists>new. obstacles s = obstacles s @ new" by simp
  next
    fix i t t'
    assume t: "\<exists>new. obstacles t = obstacles s @ new"
      and b: "rbind (NewRandomObstacle t) (\<lambda>(ob, s). Inr (s\<lparr>obstacles := obstacles s @ [ob]\<rparr>)) = Inr t'"
    obtain ob t1 where n: "NewRandomObstacle t = Inr (ob, t1)"
      and t': "t' = t1\<lparr>obstacles := obstacles t1 @ [ob]\<rparr>"
      using b by (auto simp: rbind_eq_Inr)
    have "obstacles t1 = obstacles t"
      by (subst NewRandomObstacle_frame [OF n]) simp
    then show "\<exists>new. obstacles t' = obstacles s @ new"
      using t t' by auto
  qed
qed

lemma tick_obstacles_obstacles:
  assumes "tick_obstacles s = Inr s'"
  shows "\<exists>new. obstacles s'
     = filter (\<lambda>ob. \<not> far_off_screen s ob) (map move_obstacle (obstacles s)) @ new"
proof -
  define u where "u = update_obstacles 0 s"
  have u: "obstacles u = filter (\<lambda>ob. \<not> far_off_screen s ob) (map move_obstacle (obstacles s))"
    unfolding u_def update_obstacles_obstacles by simp
  show ?thesis
  proof (cases "int (length (obstacles u)) < numObstacles")
    case True
    then have "SpawnObstacles (numObstacles - int (length (obstacles u))) u = Inr s'"
      using assms by (simp add: tick_obstacles_def u_def Let_def)
    from SpawnObstacles_obstacles [OF this] show ?thesis unfolding u .
  next
    case False
    then have "s' = u" using assms by (simp add: tick_obstacles_def u_def Let_def)
    then show ?thesis using u by simp
  qed
qed

lemma shuffleCreatures_mset:
  assumes "shuffleCreatures s = Inr s'"
  shows "mset (creatures s') = mset (creatures s)"
proof (rule forM_preserves [OF assms [unfolded shuffleCreatures_def],
        where I = "\<lambda>t. mset (creatures t) = mset (creatures s)"])
  show "mset (creatures s) = mset (creatures s)" ..
next
  fix i t t'
  assume i: "i \<in> set (rev [1..<length (creatures s)])"
    and t: "mset (creatures t) = mset (creatures s)"
    and b: "rbind (Intn (int i + 1) (env t)) (\<lambda>(j, e).
               Inr (t\<lparr>creatures := (creatures t)[i := creatures t ! nat j,
                                                 nat j := creatures t ! i],
                      env := e\<rparr>)) = Inr t'"
  define j where "j = int (rint (env t) (rpos (env t))) mod (int i + 1)"
  have "t' = t\<lparr>creatures := (creatures t)[i := creatures t ! nat j, nat j := creatures t ! i],
                env := (env t)\<lparr>rpos := rpos (env t) + 1\<rparr>\<rparr>"
    using b by (simp add: Intn_ok j_def)
  then have t': "creatures t' = (creatures t)[i := creatures t ! nat j, nat j := creatures t ! i]"
    by simp
  have "length (creatures t) = length (creatures s)"
    using t by (metis size_mset)
  then have il: "i < length (creatures t)" using i by simp
  have "0 \<le> j" unfolding j_def by simp
  moreover have "j < int i + 1" unfolding j_def by (rule pos_mod_bound) simp
  ultimately have jl: "nat j < length (creatures t)" using il by linarith
  show "mset (creatures t') = mset (creatures s)"
    unfolding t' by (simp add: mset_swap [OF jl il] t)
qed

lemma ray_potential:
  fixes W H ax ay :: real
  assumes "ax \<noteq> 0 \<or> ay \<noteq> 0"
  shows "\<exists>g :: real \<Rightarrow> real \<Rightarrow> real.
           (\<forall>x y. x < W \<and> 0 \<le> x \<and> y < H \<and> 0 \<le> y \<longrightarrow> 0 \<le> g x y) \<and>
           (\<forall>x y. g (x + ax) (y + ay) \<le> g x y - 1)"
proof -
  consider "0 < ax" | "ax < 0" | "0 < ay" | "ay < 0" using assms by linarith
  then show ?thesis
  proof cases
    case 1
    have "(W - (x + ax)) / ax = (W - x) / ax - 1" for x
      using 1 by (simp add: field_simps)
    then show ?thesis
      using 1 by (intro exI [of _ "\<lambda>x y. (W - x) / ax"]) simp
  next
    case 2
    have "(x + ax) / (- ax) = x / (- ax) - 1" for x
      using 2 by (simp add: field_simps)
    moreover have "0 \<le> x / (- ax)" if "0 \<le> x" for x
      using that 2 by (intro divide_nonneg_pos) simp_all
    ultimately show ?thesis
      by (intro exI [of _ "\<lambda>x y. x / (- ax)"]) simp
  next
    case 3
    have "(H - (y + ay)) / ay = (H - y) / ay - 1" for y
      using 3 by (simp add: field_simps)
    then show ?thesis
      using 3 by (intro exI [of _ "\<lambda>x y. (H - y) / ay"]) simp
  next
    case 4
    have "(y + ay) / (- ay) = y / (- ay) - 1" for y
      using 4 by (simp add: field_simps)
    moreover have "0 \<le> y / (- ay)" if "0 \<le> y" for y
      using that 4 by (intro divide_nonneg_pos) simp_all
    ultimately show ?thesis
      by (intro exI [of _ "\<lambda>x y. y / (- ay)"]) simp
  qed
qed

lemma ray_march_agree:
  assumes "ax \<noteq> 0 \<or> ay \<noteq> 0"
    and "frame s2 = frame s" "frameWidthf s2 = frameWidthf s" "frameHeightf s2 = frameHeightf s"
  shows "ray_march s2 c ax ay x y = ray_march s c ax ay x y"
proof -
  obtain g :: "real \<Rightarrow> real \<Rightarrow> real"
    where inb: "\<And>x y. x < frameWidthf s \<and> 0 \<le> x \<and> y < frameHeightf s \<and> 0 \<le> y \<Longrightarrow> 0 \<le> g x y"
      and dec: "\<And>x y. g (x + ax) (y + ay) \<le> g x y - 1"
    using ray_potential [OF assms(1), of "frameWidthf s" "frameHeightf s"] by blast
  have "g x y < real n \<Longrightarrow> ray_march s2 c ax ay x y = ray_march s c ax ay x y" for n x y
  proof (induction n arbitrary: x y)
    case 0
    then have "\<not> (x < frameWidthf s \<and> 0 \<le> x \<and> y < frameHeightf s \<and> 0 \<le> y)"
      using inb [of x y] by auto
    then show ?case by (simp add: ray_march_out assms)
  next
    case (Suc n)
    show ?case
    proof (cases "x < frameWidthf s \<and> 0 \<le> x \<and> y < frameHeightf s \<and> 0 \<le> y")
      case False
      then show ?thesis by (simp add: ray_march_out assms)
    next
      case True
      show ?thesis
      proof (cases "frame s (go_int x) (go_int y)")
        case hit: True
        then show ?thesis using True by (simp add: ray_march_hit assms)
      next
        case miss: False
        have "g (x + ax) (y + ay) < real n"
          using dec [of x y] Suc.prems by simp
        from Suc.IH [OF this] miss True show ?thesis by (simp add: ray_march_miss assms)
      qed
    qed
  qed
  moreover obtain n where "g x y < real n" using reals_Archimedean2 by blast
  ultimately show ?thesis by blast
qed

lemma DistanceToNearest_agree:
  assumes "frame s2 = frame s" "frameWidthf s2 = frameWidthf s" "frameHeightf s2 = frameHeightf s"
  shows "DistanceToNearest s2 c a = DistanceToNearest s c a"
proof -
  have "cos (a + c_angle c) \<noteq> 0 \<or> sin (a + c_angle c) \<noteq> 0"
  proof (rule ccontr)
    assume "\<not> ?thesis"
    then have "(sin (a + c_angle c))\<^sup>2 + (cos (a + c_angle c))\<^sup>2 = 0" by simp
    then show False unfolding sin_cos_squared_add by simp
  qed
  then show ?thesis
    unfolding DistanceToNearest_def Let_def by (rule ray_march_agree) (rule assms)+
qed

lemma sensed_agree:
  assumes "frame s2 = frame s" "frameWidthf s2 = frameWidthf s" "frameHeightf s2 = frameHeightf s"
  shows "sensed s2 c bi = sensed s c bi"
  by (simp add: sensed_def DistanceToNearest_agree [OF assms])

lemma acted_agree:
  assumes "frame s2 = frame s" "frameWidthf s2 = frameWidthf s" "frameHeightf s2 = frameHeightf s"
    "heap (env s2) = heap (env s)"
  shows "acted s2 c c' = acted s c c'"
  by (simp add: acted_def sensed_agree [OF assms(1,2,3)] assms(4))

lemma GetAction_acted:
  assumes "GetAction c s = Inr ((turn, move), c1, s1)"
  shows "\<exists>bi b. s1 = s\<lparr>brainInputs := bi\<rparr> \<and> c1 = c\<lparr>brain := b\<rparr> \<and> sensed s c bi \<and>
           Step (heap (env s)) (brain c) bi = Inr ((turn, move), b)"
proof -
  obtain sF b where f: "forM [0..<numBrainInputs]
              (\<lambda>i s. let angle = pi * 2 * real i / real numBrainInputs in
                 case DistanceToNearest s c angle of
                   None \<Rightarrow> Inl Diverges
                 | Some d \<Rightarrow> rbind (upd (brainInputs s) i d) (\<lambda>bi.
                             Inr (s\<lparr>brainInputs := bi\<rparr>))) s = Inr sF"
    and st: "Step (heap (env sF)) (brain c) (brainInputs sF) = Inr ((turn, move), b)"
    and r: "c1 = c\<lparr>brain := b\<rparr>" "s1 = sF"
    using assms unfolding GetAction_def by (auto simp: rbind_eq_Inr)
  define R where "R = (\<lambda>k (t::Sim). t = s\<lparr>brainInputs := brainInputs t\<rparr> \<and>
     (\<forall>i<k. DistanceToNearest s c (pi * 2 * real i / real numBrainInputs) = Some (brainInputs t ! i)))"
  have "R numBrainInputs sF"
  proof (rule forM_upt0_preserves [OF f, where R = R])
    show "R 0 s" by (simp add: R_def)
  next
    fix k t t'
    assume k: "k < numBrainInputs" and t: "R k t"
      and b: "(let angle = pi * 2 * real k / real numBrainInputs in
                 case DistanceToNearest t c angle of
                   None \<Rightarrow> Inl Diverges
                 | Some d \<Rightarrow> rbind (upd (brainInputs t) k d) (\<lambda>bi.
                             Inr (t\<lparr>brainInputs := bi\<rparr>))) = Inr t'"
    define Bt where "Bt = brainInputs t"
    have ts: "t = s\<lparr>brainInputs := Bt\<rparr>" using t by (simp add: R_def Bt_def)
    have v: "\<And>i. i < k \<Longrightarrow>
        DistanceToNearest s c (pi * 2 * real i / real numBrainInputs) = Some (Bt ! i)"
      using t by (simp add: R_def Bt_def)
    have ag: "DistanceToNearest t c a = DistanceToNearest s c a" for a
      by (rule DistanceToNearest_agree) (simp_all add: ts)
    obtain d where d: "DistanceToNearest s c (pi * 2 * real k / real numBrainInputs) = Some d"
      using DistanceToNearest_total by blast
    have kl: "k < length Bt"
      using b d unfolding Let_def ag by (auto simp: upd_def Bt_def split: if_splits)
    have "t' = t\<lparr>brainInputs := Bt[k := d]\<rparr>"
      using b d kl unfolding Let_def ag by (simp add: Bt_def)
    then have t': "t' = s\<lparr>brainInputs := Bt[k := d]\<rparr>"
      by (subst (asm) ts) simp
    show "R (Suc k) t'"
      unfolding R_def
    proof (intro conjI allI impI)
      show "t' = s\<lparr>brainInputs := brainInputs t'\<rparr>" by (simp add: t')
    next
      fix i assume "i < Suc k"
      then show "DistanceToNearest s c (pi * 2 * real i / real numBrainInputs)
                 = Some (brainInputs t' ! i)"
        using v [of i] d kl by (cases "i = k") (simp_all add: t')
    qed
  qed
  then have sF: "sF = s\<lparr>brainInputs := brainInputs sF\<rparr>"
    and v: "\<And>i. i < numBrainInputs \<Longrightarrow>
        DistanceToNearest s c (pi * 2 * real i / real numBrainInputs) = Some (brainInputs sF ! i)"
    by (simp_all add: R_def)
  have l: "length (brainInputs sF) = numBrainInputs"
    using st by (auto simp: Step_def split: if_splits)
  have h: "heap (env sF) = heap (env s)" by (subst sF) simp
  have "sensed s c (brainInputs sF)"
    unfolding sensed_def using l v by (simp add: list_all_iff)
  then show ?thesis using sF st r unfolding h by blast
qed

lemma act_acted:
  assumes "act i s = Inr s'"
  shows "i < length (creatures s) \<and>
         (\<exists>c' bi. s' = s\<lparr>brainInputs := bi, creatures := (creatures s)[i := c']\<rparr> \<and>
                   acted s (creatures s ! i) c')"
proof -
  have i: "i < length (creatures s)"
    using assms by (auto simp: act_def idx_def rbind_eq_Inr split: if_splits)
  define c where "c = creatures s ! i"
  obtain turn move c1 s1 where g: "GetAction c s = Inr ((turn, move), c1, s1)"
    and r: "(let c = c1\<lparr>c_angle := c_angle c1 + turn / 8\<rparr>;
         ax = cos (c_angle c);
         ay = sin (c_angle c);
         c = c\<lparr>c_x := c_x c + ax * move * 4\<rparr>;
         c = c\<lparr>c_y := c_y c + ay * move * 4\<rparr>;
         c = (if score c < MaxInt64 then c\<lparr>score := score c + 1\<rparr> else c)
     in Inr (s1\<lparr>creatures := (creatures s1)[i := c]\<rparr>)) = (Inr s' :: error + Sim)"
    using assms i unfolding act_def c_def by (auto simp: rbind_eq_Inr)
  obtain bi b where a: "s1 = s\<lparr>brainInputs := bi\<rparr>" "c1 = c\<lparr>brain := b\<rparr>" "sensed s c bi"
    "Step (heap (env s)) (brain c) bi = Inr ((turn, move), b)"
    using GetAction_acted [OF g] by blast
  define c' where "c' = c\<lparr>brain := b,
               c_angle := c_angle c + turn / 8,
               c_x := c_x c + cos (c_angle c + turn / 8) * move * 4,
               c_y := c_y c + sin (c_angle c + turn / 8) * move * 4,
               score := (if score c < MaxInt64 then score c + 1 else score c)\<rparr>"
  have "s' = s\<lparr>brainInputs := bi, creatures := (creatures s)[i := c']\<rparr>"
    using r unfolding a Let_def c'_def by (auto split: if_splits)
  moreover have "acted s c c'"
    unfolding acted_def c'_def using a(3,4) by blast
  ultimately show ?thesis using i unfolding c_def by blast
qed

lemma action_pass_acted:
  assumes "action_pass s = Inr s'"
  shows "list_all2 (acted s) (creatures s) (creatures s')"
proof -
  define n where "n = length (creatures s)"
  define R where "R = (\<lambda>k (t::Sim).
     t = s\<lparr>brainInputs := brainInputs t, creatures := creatures t\<rparr> \<and>
     length (creatures t) = n \<and>
     list_all2 (acted s) (take k (creatures s)) (take k (creatures t)) \<and>
     drop k (creatures t) = drop k (creatures s))"
  have "R n s'"
  proof (rule forM_upt0_preserves [OF assms [unfolded action_pass_def, folded n_def], where R = R])
    show "R 0 s" by (simp add: R_def n_def)
  next
    fix k t t'
    assume k: "k < n" and t: "R k t" and a: "act k t = Inr t'"
    define Bt where "Bt = brainInputs t"
    define Ct where "Ct = creatures t"
    have ts: "t = s\<lparr>brainInputs := Bt, creatures := Ct\<rparr>"
      using t by (simp add: R_def Bt_def Ct_def)
    have l: "length Ct = n" and d: "drop k Ct = drop k (creatures s)"
      and m: "list_all2 (acted s) (take k (creatures s)) (take k Ct)"
      using t by (simp_all add: R_def Ct_def)
    obtain c' bi where c': "t' = t\<lparr>brainInputs := bi, creatures := (creatures t)[k := c']\<rparr>"
      "acted t (creatures t ! k) c'"
      using act_acted [OF a] by blast
    have ag: "acted t = acted s"
      by (intro ext acted_agree) (simp_all add: ts)
    have "Ct ! k = drop k Ct ! 0" using k l by simp
    also have "\<dots> = creatures s ! k" unfolding d using k by (simp add: n_def)
    finally have e: "Ct ! k = creatures s ! k" .
    have ac: "acted s (creatures s ! k) c'"
      using c'(2) unfolding ag by (simp add: Ct_def [symmetric] e)
    have t's: "t' = s\<lparr>brainInputs := bi, creatures := Ct[k := c']\<rparr>"
      unfolding c'(1) Ct_def [symmetric] by (subst ts) simp
    have "take (Suc k) (creatures s) = take k (creatures s) @ [creatures s ! k]"
      using k by (simp add: take_Suc_conv_app_nth n_def)
    moreover have "take (Suc k) (Ct[k := c']) = take k Ct @ [c']"
      using k l by (simp add: take_Suc_conv_app_nth)
    ultimately have "list_all2 (acted s) (take (Suc k) (creatures s)) (take (Suc k) (Ct[k := c']))"
      using m ac by (simp add: list_all2_appendI)
    moreover have "drop (Suc k) (Ct[k := c']) = drop (Suc k) (creatures s)"
    proof -
      have "drop (Suc k) (Ct[k := c']) = drop 1 (drop k Ct)" by simp
      also have "\<dots> = drop (Suc k) (creatures s)" unfolding d by simp
      finally show ?thesis .
    qed
    ultimately show "R (Suc k) t'" using l by (simp add: R_def t's)
  qed
  then have l: "length (creatures s') = length (creatures s)"
    and m0: "list_all2 (acted s) (take (length (creatures s)) (creatures s))
               (take (length (creatures s)) (creatures s'))"
    unfolding R_def n_def by blast+
  have m: "list_all2 (acted s) (creatures s) (take (length (creatures s)) (creatures s'))"
    using m0 by (simp only: take_all [OF order_refl])
  have "take (length (creatures s)) (creatures s') = creatures s'"
    by (rule take_all) (simp add: l)
  then show ?thesis using m by simp
qed

lemma tick_prepare_tested:
  assumes "sim_ok s" "tick_prepare D s = Inr s1"
  shows "\<exists>new cs.
           obstacles s1 = filter (\<lambda>ob. \<not> far_off_screen s ob) (map move_obstacle (obstacles s)) @ new \<and>
           frame s1 = foldl (\<lambda>f ob. draw_obstacle D (borderWidthf s) ob f)
                        (draw_arena D (frameWidthf s) (frameHeightf s) (borderWidthf s) (frame s))
                        (obstacles s1) \<and>
           borderWidthf s1 = borderWidthf s \<and>
           mset (creatures s1) = mset (creatures s) + mset cs \<and>
           list_all (\<lambda>c. \<exists>p. c_x c = spawn_x s p \<and> c_y c = spawn_y s p) cs"
proof -
  obtain sB sC sD where sB: "tick_obstacles (tick_draw_arena D s) = Inr sB"
    and sC: "tick_evolution (tick_draw_obstacles D sB) = Inr sC"
    and sD: "tick_floor sC = Inr sD"
    and s1: "shuffleCreatures sD = Inr s1"
    using assms(2) unfolding tick_prepare_def rbind_eq_Inr by blast
  define A where "A = draw_arena D (frameWidthf s) (frameHeightf s) (borderWidthf s) (frame s)"
  have ta: "tick_draw_arena D s = s\<lparr>frame := A\<rparr>" by (simp add: tick_draw_arena_def A_def)
  obtain new where new: "obstacles sB
      = filter (\<lambda>ob. \<not> far_off_screen s ob) (map move_obstacle (obstacles s)) @ new"
    using tick_obstacles_obstacles [OF sB] unfolding ta by (auto simp: far_off_screen_def)
  define Ob where "Ob = obstacles sB"
  define Eb where "Eb = env sB"
  have fB: "sB = s\<lparr>frame := A, obstacles := Ob, env := Eb\<rparr>"
    using tick_obstacles_frame [OF sB] unfolding Ob_def Eb_def ta .
  have rB: "rint Eb = rint (env s)"
    using tick_obstacles_env [OF sB] by (simp add: env_same_def Eb_def ta)
  define Fo where "Fo = foldl (\<lambda>f ob. draw_obstacle D (borderWidthf s) ob f) A Ob"
  have fO: "tick_draw_obstacles D sB = s\<lparr>frame := Fo, obstacles := Ob, env := Eb\<rparr>"
    unfolding tick_draw_obstacles_def Fo_def by (subst (1 2 3 4) fB) simp
  have okB: "sim_ok (tick_draw_obstacles D sB)"
    unfolding fO using assms(1) by simp
  obtain k where k: "spawned k (tick_draw_obstacles D sB) sC"
    using tick_evolution_spawned [OF okB] sC by auto
  have okC: "sim_ok sC" using spawned_sim_ok(1) [OF okB k] .
  obtain k' where k': "spawned k' sC sD"
    using tick_floor_spawned [OF okC] sD by auto
  have kk: "spawned (k + k') (tick_draw_obstacles D sB) sD"
    using spawned_trans [OF k k'] .
  then obtain cs pool e where
    d: "sD = s\<lparr>frame := Fo, obstacles := Ob, env := Eb,
               creatures := creatures s @ cs, creaturePool := pool, env := e\<rparr>"
    and p: "list_all (\<lambda>c. \<exists>p. c_x c = spawn_x (tick_draw_obstacles D sB) p \<and>
                                c_y c = spawn_y (tick_draw_obstacles D sB) p) cs"
    unfolding spawned_def fO by auto
  have xB: "spawn_x (tick_draw_obstacles D sB) = spawn_x s"
    "spawn_y (tick_draw_obstacles D sB) = spawn_y s"
    unfolding fO by (rule ext, simp add: spawn_x_def spawn_y_def rB)+
  define C1 where "C1 = creatures s1"
  define E1 where "E1 = env s1"
  have f1: "s1 = sD\<lparr>creatures := C1, env := E1\<rparr>"
    using shuffleCreatures_frame(1) [OF s1] unfolding C1_def E1_def .
  have o1: "obstacles s1 = Ob" unfolding f1 d by simp
  have 1: "obstacles s1
      = filter (\<lambda>ob. \<not> far_off_screen s ob) (map move_obstacle (obstacles s)) @ new"
    unfolding o1 Ob_def by (rule new)
  have 2: "frame s1 = foldl (\<lambda>f ob. draw_obstacle D (borderWidthf s) ob f)
                        (draw_arena D (frameWidthf s) (frameHeightf s) (borderWidthf s) (frame s))
                        (obstacles s1)"
    unfolding o1 A_def [symmetric] Fo_def [symmetric] unfolding f1 d by simp
  have 3: "borderWidthf s1 = borderWidthf s" unfolding f1 d by simp
  have 4: "mset (creatures s1) = mset (creatures s) + mset cs"
    using shuffleCreatures_mset [OF s1] unfolding d by simp
  have 5: "list_all (\<lambda>c. \<exists>p. c_x c = spawn_x s p \<and> c_y c = spawn_y s p) cs"
    using p unfolding xB .
  show ?thesis
    by (rule exI [of _ new], rule exI [of _ cs]) (intro conjI 1 2 3 4 5)
qed

lemma acted_death_pass:
  "acted (death_pass s) = acted s"
proof -
  define C where "C = creatures (death_pass s)"
  define P where "P = creaturePool (death_pass s)"
  define B where "B = bestCreatures (death_pass s)"
  have f: "death_pass s = s\<lparr>creatures := C, creaturePool := P, bestCreatures := B\<rparr>"
    using death_pass_frame [of s] unfolding C_def P_def B_def .
  show ?thesis by (intro ext acted_agree) (simp_all add: f)
qed

text \<open>
  Claim C4, as the code has it: the death pass runs before the action pass. The state \<open>s1\<close>
  in which it starts holds the obstacles of \<open>s\<close> advanced by their velocity (those far off
  screen removed, new ones appended), a frame made of the arena and the strokes of these
  obstacles, and, in shuffled order, the creatures of \<open>s\<close> as the tick before left them
  together with the creatures \<open>cs\<close> spawned in this tick at random positions. The death
  pass tests the creatures of \<open>s1\<close> at the positions they have there. The creatures after
  the tick are the results of the action pass (sensing on the frame of \<open>s1\<close>, one step of
  the brain, turn and move) on the creatures of \<open>s1\<close> that are not dead, all of them and in
  order: the positions the action pass gives them are not tested in this tick. They are
  tested by the death pass of the next tick, whose starting state holds the creatures of
  \<open>s'\<close> unchanged. In the first tick of \<open>drift_sim\<close> the death pass tests the spawn
  positions \<open>(206, 713)\<close> and \<open>(404, 404)\<close>; the creature spawned at \<open>(206, 713)\<close> passes,
  the action pass moves it to \<open>(206, 713 + 4 tanh (1/2))\<close>, within its radius of the bottom
  border band, and it is still there after the tick: at that position the death test on
  the frame of this tick is true.
\<close>

theorem death_pass_before_action_pass:
  assumes "sim_ok s" "DoTick D s = Inr s'"
  shows "\<exists>s1 new cs.
           tick_prepare D s = Inr s1 \<and>
           obstacles s1
             = filter (\<lambda>ob. \<not> (o_x ob - frameWidthf s \<ge> o_length ob \<or> - o_x ob \<ge> o_length ob \<or>
                                o_y ob - frameHeightf s \<ge> o_length ob \<or> - o_y ob \<ge> o_length ob))
                 (map (\<lambda>ob. ob\<lparr>o_x := o_x ob + dx ob, o_y := o_y ob + dy ob\<rparr>) (obstacles s))
               @ new \<and>
           frame s1 = foldl (\<lambda>f ob. draw_obstacle D (borderWidthf s) ob f)
                        (draw_arena D (frameWidthf s) (frameHeightf s) (borderWidthf s) (frame s))
                        (obstacles s1) \<and>
           borderWidthf s1 = borderWidthf s \<and>
           mset (creatures s1) = mset (creatures s) + mset cs \<and>
           list_all (\<lambda>c. \<exists>p. c_x c = spawn_x s p \<and> c_y c = spawn_y s p) cs \<and>
           list_all2 (acted s1) (filter (\<lambda>c. \<not> creature_dead s1 c) (creatures s1)) (creatures s') \<and>
           (\<forall>s''. DoTick D s' = Inr s'' \<longrightarrow>
              (\<exists>s1' cs'. tick_prepare D s' = Inr s1' \<and>
                 mset (creatures s1') = mset (creatures s') + mset cs'))"
proof -
  obtain s1 s2 where a: "tick_prepare D s = Inr s1" "action_pass (death_pass s1) = Inr s2"
    "creatures s' = creatures s2"
    using DoTick_state [OF assms(2)] by blast
  obtain new cs where b:
    "obstacles s1 = filter (\<lambda>ob. \<not> far_off_screen s ob) (map move_obstacle (obstacles s)) @ new"
    "frame s1 = foldl (\<lambda>f ob. draw_obstacle D (borderWidthf s) ob f)
                        (draw_arena D (frameWidthf s) (frameHeightf s) (borderWidthf s) (frame s))
                        (obstacles s1)"
    "borderWidthf s1 = borderWidthf s"
    "mset (creatures s1) = mset (creatures s) + mset cs"
    "list_all (\<lambda>c. \<exists>p. c_x c = spawn_x s p \<and> c_y c = spawn_y s p) cs"
    using tick_prepare_tested [OF assms(1) a(1)] by blast
  have 1: "obstacles s1
             = filter (\<lambda>ob. \<not> (o_x ob - frameWidthf s \<ge> o_length ob \<or> - o_x ob \<ge> o_length ob \<or>
                                o_y ob - frameHeightf s \<ge> o_length ob \<or> - o_y ob \<ge> o_length ob))
                 (map (\<lambda>ob. ob\<lparr>o_x := o_x ob + dx ob, o_y := o_y ob + dy ob\<rparr>) (obstacles s))
               @ new"
    unfolding b(1) far_off_screen_def move_obstacle_def Let_def ..
  have 6: "list_all2 (acted s1) (filter (\<lambda>c. \<not> creature_dead s1 c) (creatures s1)) (creatures s')"
    using action_pass_acted [OF a(2)] by (simp add: a(3) death_pass_creatures acted_death_pass)
  have 7: "\<forall>s''. DoTick D s' = Inr s'' \<longrightarrow>
              (\<exists>s1' cs'. tick_prepare D s' = Inr s1' \<and>
                 mset (creatures s1') = mset (creatures s') + mset cs')"
  proof (intro allI impI)
    fix s'' assume n: "DoTick D s' = Inr s''"
    have ok: "sim_ok s'" using DoTick_sim_ok [OF assms] .
    obtain s1' where p: "tick_prepare D s' = Inr s1'"
      using DoTick_state [OF n] by blast
    from tick_prepare_tested [OF ok p] p
    show "\<exists>s1' cs'. tick_prepare D s' = Inr s1' \<and>
                 mset (creatures s1') = mset (creatures s') + mset cs'" by blast
  qed
  show ?thesis
    by (rule exI [of _ s1], rule exI [of _ new], rule exI [of _ cs])
       (intro conjI a(1) 1 b(2) b(3) b(4) b(5) 6 7)
qed

theorem death_pass_before_action_pass_witness:
  "sim_ok drift_sim \<and>
   (\<exists>s' s1 new cs. DoTick ideal_draw drift_sim = Inr s' \<and>
      tick_prepare ideal_draw drift_sim = Inr s1 \<and>
      obstacles s1 = filter (\<lambda>ob. \<not> far_off_screen drift_sim ob)
                       (map move_obstacle (obstacles drift_sim)) @ new \<and>
      mset (creatures s1) = mset (creatures drift_sim) + mset cs \<and>
      list_all2 (acted s1) (filter (\<lambda>c. \<not> creature_dead s1 c) (creatures s1)) (creatures s'))"
proof -
  obtain s' where s': "DoTick ideal_draw drift_sim = Inr s'"
    using drift_run by blast
  from death_pass_before_action_pass [OF sim_ok_drift_sim s']
  obtain s1 new cs where "tick_prepare ideal_draw drift_sim = Inr s1"
    "obstacles s1
       = filter (\<lambda>ob. \<not> (o_x ob - frameWidthf drift_sim \<ge> o_length ob \<or> - o_x ob \<ge> o_length ob \<or>
                          o_y ob - frameHeightf drift_sim \<ge> o_length ob \<or> - o_y ob \<ge> o_length ob))
           (map (\<lambda>ob. ob\<lparr>o_x := o_x ob + dx ob, o_y := o_y ob + dy ob\<rparr>) (obstacles drift_sim))
         @ new"
    "mset (creatures s1) = mset (creatures drift_sim) + mset cs"
    "list_all2 (acted s1) (filter (\<lambda>c. \<not> creature_dead s1 c) (creatures s1)) (creatures s')"
    by blast
  then show ?thesis
    using s' sim_ok_drift_sim
    by (auto simp: drift_sim_def NewSim_def)
qed

theorem survivor_moved_onto_border_untested:
  "reachable ideal_draw drift_sim \<and>
   (\<exists>s1 s'. tick_prepare ideal_draw drift_sim = Inr s1 \<and>
      DoTick ideal_draw drift_sim = Inr s' \<and>
      list_all (\<lambda>c. (c_x c = 206 \<and> c_y c = 713) \<or> (c_x c = 404 \<and> c_y c = 404)) (creatures s1) \<and>
      creatures s' \<noteq> [] \<and>
      list_all (\<lambda>c. c_x c = 206 \<and> c_y c = 713 + 4 * tanh (1 / 2) \<and> creature_dead s1 c)
        (creatures s'))"
proof
  show "reachable ideal_draw drift_sim"
    unfolding drift_sim_def by (rule reachable.start)
qed (rule drift_run)

text \<open>
  The allocation discipline \<open>heap_fresh\<close>, under which claim C8's theorem describes the
  weights of the spawned creatures, holds in every reachable state: it holds initially, and
  the touch handler and every step of the tick preserve it.
\<close>

lemma heap_fresh_transfer:
  assumes "heap_fresh s"
    and "mset (map (\<lambda>c. allWeights (brain c)) (creatures s' @ creaturePool s'))
         = mset (map (\<lambda>c. allWeights (brain c)) (creatures s @ creaturePool s))"
    and "heap (env s') = heap (env s)" "hnext (env s') = hnext (env s)"
    and "list_all (\<lambda>t. arr (t_weights t) < hnext (env s)) (bestCreatures s')"
  shows "heap_fresh s'"
proof -
  define W where "W = (\<lambda>c :: Creature. allWeights (brain c))"
  define xs where "xs = map W (creatures s @ creaturePool s)"
  define ys where "ys = map W (creatures s' @ creaturePool s')"
  define Q where "Q = (\<lambda>h H (w :: fslice). arr w < (H :: nat) \<and> off w + len w \<le> length ((h :: heap) (arr w)))"
  have m: "mset ys = mset xs" using assms(2) by (simp add: xs_def ys_def W_def)
  have w: "map warr cs = map arr (map W cs)" for cs
    by (simp add: warr_def W_def)
  have q: "list_all (\<lambda>c. warr c < H \<and> backed h c) cs = list_all (Q h H) (map W cs)" for h H cs
    by (simp add: list_all_iff Q_def backed_def warr_def W_def)
  have "mset (map arr ys) = mset (map arr xs)" using m by (metis mset_map)
  then have d: "distinct (map arr ys) = distinct (map arr xs)"
    by (rule mset_eq_imp_distinct_iff)
  have st: "set ys = set xs" using m by (rule mset_eq_setD)
  have "distinct (map arr xs)" "list_all (Q (heap (env s)) (hnext (env s))) xs"
    using assms(1) unfolding heap_fresh_def w q xs_def by simp_all
  then have "distinct (map arr ys)" "list_all (Q (heap (env s)) (hnext (env s))) ys"
    using d st by (simp_all add: list_all_iff)
  then show ?thesis
    unfolding heap_fresh_def w q assms(3,4) ys_def [symmetric] using assms(5) by simp
qed

lemma heap_fresh_other [simp]:
  "heap_fresh (s\<lparr>frame := f\<rparr>) = heap_fresh s"
  "heap_fresh (s\<lparr>obstacles := obs\<rparr>) = heap_fresh s"
  "heap_fresh (s\<lparr>tickCounter := n\<rparr>) = heap_fresh s"
  "heap_fresh (s\<lparr>brainInputs := bi\<rparr>) = heap_fresh s"
  by (simp_all add: heap_fresh_def)

lemma heap_fresh_env:
  "env_same (env s) e \<Longrightarrow> heap_fresh (s\<lparr>env := e\<rparr>) = heap_fresh s"
  by (simp add: heap_fresh_def env_same_def)

lemma fold_best_pred:
  assumes "list_all (\<lambda>t. Q (t_weights t)) best" "Q ws"
  shows "list_all (\<lambda>t. Q (t_weights t)) (fold_best h best ws sc)"
proof -
  have "list_all (\<lambda>t. Q (t_weights t)) (best[k := (best ! k)\<lparr>t_score := sc\<rparr>])" for k
  proof (cases "k < length best")
    case True
    then have "Q (t_weights (best ! k))"
      using assms(1) by (simp add: list_all_length)
    then show ?thesis
      using assms(1) True by (auto simp: list_all_length nth_list_update)
  next
    case False
    then have "best[k := (best ! k)\<lparr>t_score := sc\<rparr>] = best"
      by (intro list_update_beyond) simp
    then show ?thesis using assms(1) by simp
  qed
  then show ?thesis using assms by (simp add: fold_best_def Let_def)
qed

lemma bury_heap_fresh:
  assumes "heap_fresh s" "i < length (creatures s)"
  shows "heap_fresh (bury i s)"
proof (rule heap_fresh_transfer [OF assms(1)])
  have "creatures s = take i (creatures s) @ creatures s ! i # drop (Suc i) (creatures s)"
    using assms(2) by (rule id_take_nth_drop)
  then have "mset (creatures s) = mset (take i (creatures s) @ drop (Suc i) (creatures s))
               + {#creatures s ! i#}"
    by (metis add_mset_add_single mset.simps(2) mset_append union_mset_add_mset_right)
  then have "mset (creatures (bury i s) @ creaturePool (bury i s))
             = mset (creatures s @ creaturePool s)"
    by (simp add: bury_def)
  then show "mset (map (\<lambda>c. allWeights (brain c)) (creatures (bury i s) @ creaturePool (bury i s)))
         = mset (map (\<lambda>c. allWeights (brain c)) (creatures s @ creaturePool s))"
    by (metis mset_map)
  show "heap (env (bury i s)) = heap (env s)" "hnext (env (bury i s)) = hnext (env s)"
    by (simp_all add: bury_def)
  have "warr (creatures s ! i) < hnext (env s)"
    using assms nth_mem [OF assms(2)] by (simp add: heap_fresh_def list_all_iff)
  then have "list_all (\<lambda>t. arr (t_weights t) < hnext (env s))
     (fold_best (heap (env s)) (bestCreatures s) (GetWeights (brain (creatures s ! i)))
        (score (creatures s ! i)))"
    using assms(1) by (intro fold_best_pred) (simp_all add: heap_fresh_def GetWeights_def warr_def)
  then show "list_all (\<lambda>t. arr (t_weights t) < hnext (env s)) (bestCreatures (bury i s))"
    by (simp add: bury_def)
qed

lemma death_loop_heap_fresh: "heap_fresh s \<Longrightarrow> heap_fresh (death_loop i s)"
proof (induction i s rule: death_loop.induct)
  case (1 i s)
  show ?case
  proof (cases "i < length (creatures s)")
    case False
    then show ?thesis using 1(3) by (subst death_loop.simps) simp
  next
    case True
    show ?thesis
    proof (cases "creature_dead s (creatures s ! i)")
      case dead: True
      have "heap_fresh (death_loop i (bury i s))"
        using 1(1) [OF True dead] bury_heap_fresh [OF 1(3) True] by simp
      then show ?thesis using True dead by (subst death_loop.simps) simp
    next
      case alive: False
      have "heap_fresh (death_loop (i + 1) s)" using 1(2) [OF True alive 1(3)] .
      then show ?thesis using True alive by (subst death_loop.simps) simp
    qed
  qed
qed

lemma act_heap_fresh:
  assumes "sim_ok s" "heap_fresh s" "i < length (creatures s)"
  shows "\<exists>s'. act i s = Inr s' \<and> sim_ok s' \<and> heap_fresh s' \<and>
               length (creatures s') = length (creatures s)"
proof -
  define c where "c = creatures s ! i"
  have c: "creature_ok c" using assms by (simp add: sim_ok_def list_all_length c_def)
  have l: "length (brainInputs s) = numBrainInputs" using assms(1) by (simp add: sim_ok_def)
  obtain turn move b bi where
    g: "GetAction c s = Inr ((turn, move), c\<lparr>brain := b\<rparr>, s\<lparr>brainInputs := bi\<rparr>)"
    and bi: "length bi = numBrainInputs" and b: "brain_ok b" "allWeights b = allWeights (brain c)"
    using GetAction_ok [OF c l] by (metis surj_pair)
  define c' where "c' = (let c = c\<lparr>brain := b, c_angle := c_angle c + turn / 8\<rparr>;
         c = c\<lparr>c_x := c_x c + cos (c_angle c) * move * 4\<rparr>;
         c = c\<lparr>c_y := c_y c + sin (c_angle c) * move * 4\<rparr>
     in (if score c < MaxInt64 then c\<lparr>score := score c + 1\<rparr> else c))"
  define s' where "s' = s\<lparr>brainInputs := bi, creatures := (creatures s)[i := c']\<rparr>"
  have a: "act i s = Inr s'"
    unfolding act_def s'_def using assms(3) g by (simp add: c_def [symmetric] c'_def Let_def)
  obtain t where t: "act i s = Inr t" "sim_ok t" "length (creatures t) = length (creatures s)"
    using act_ok [OF assms(1,3)] by blast
  have w: "allWeights (brain c') = allWeights (brain c)"
    using b(2) by (simp add: c'_def Let_def)
  have "map (\<lambda>c. allWeights (brain c)) ((creatures s)[i := c'])
        = (map (\<lambda>c. allWeights (brain c)) (creatures s))[i := allWeights (brain c)]"
    by (simp add: map_update w)
  also have "\<dots> = map (\<lambda>c. allWeights (brain c)) (creatures s)"
    using assms(3) by (intro nth_equalityI) (simp_all add: nth_list_update c_def)
  finally have m: "map (\<lambda>c. allWeights (brain c)) (creatures s')
        = map (\<lambda>c. allWeights (brain c)) (creatures s)"
    by (simp add: s'_def)
  have "heap_fresh s'"
  proof (rule heap_fresh_transfer [OF assms(2)])
    show "mset (map (\<lambda>c. allWeights (brain c)) (creatures s' @ creaturePool s'))
         = mset (map (\<lambda>c. allWeights (brain c)) (creatures s @ creaturePool s))"
      using m by (simp add: s'_def)
    show "heap (env s') = heap (env s)" "hnext (env s') = hnext (env s)"
      by (simp_all add: s'_def)
    show "list_all (\<lambda>t. arr (t_weights t) < hnext (env s)) (bestCreatures s')"
      using assms(2) by (simp add: s'_def heap_fresh_def)
  qed
  then show ?thesis using a t by simp
qed

lemma action_pass_heap_fresh:
  assumes "sim_ok s" "heap_fresh s" "action_pass s = Inr s'"
  shows "heap_fresh s'"
proof -
  define I where "I = (\<lambda>t. sim_ok t \<and> heap_fresh t \<and> length (creatures t) = length (creatures s))"
  have "\<exists>s'. forM [0..<length (creatures s)] act s = Inr s' \<and> I s'"
  proof (rule forM_invariant [where I = I])
    show "I s" by (simp add: I_def assms)
  next
    fix i t
    assume "i \<in> set [0..<length (creatures s)]" "I t"
    then have "sim_ok t" "heap_fresh t" "i < length (creatures t)" by (simp_all add: I_def)
    from act_heap_fresh [OF this] show "\<exists>s'. act i t = Inr s' \<and> I s'"
      using \<open>I t\<close> by (auto simp: I_def)
  qed
  then show ?thesis using assms(3) by (auto simp: action_pass_def I_def)
qed

lemma update_top_heap_fresh:
  assumes "heap_fresh s" "update_top s = Inr s'"
  shows "heap_fresh s'"
proof -
  define P where "P = (\<lambda>t :: TopCreature. arr (t_weights t) < hnext (env s))"
  have f: "list_all P (foldl (\<lambda>best c. fold_best h best (GetWeights (brain c)) (score c)) best cs)"
    if "list_all P best" "list_all (\<lambda>c. warr c < hnext (env s)) cs"
    for h and best :: "TopCreature list" and cs :: "Creature list"
    using that
  proof (induction cs arbitrary: best)
    case Nil
    then show ?case by simp
  next
    case (Cons c cs)
    have "list_all P (fold_best h best (GetWeights (brain c)) (score c))"
      unfolding P_def using Cons.prems
      by (intro fold_best_pred) (simp_all add: P_def warr_def GetWeights_def)
    then show ?case using Cons by simp
  qed
  define best where "best = foldl (\<lambda>best c. fold_best (heap (env s)) best (GetWeights (brain c)) (score c))
                   (bestCreatures s) (creatures s)"
  have b: "list_all P best"
    unfolding best_def using assms(1)
    by (intro f) (simp_all add: heap_fresh_def P_def list_all_iff)
  obtain best' where t: "truncate_best (sort_best best) = Inr best'"
    and s': "s' = s\<lparr>bestCreatures := best'\<rparr>"
    using assms(2) unfolding update_top_def best_def [symmetric] Let_def
    by (auto simp: rbind_eq_Inr)
  have "list_all P (sort_best best)" using b by (simp add: sort_best_def list_all_iff)
  moreover have "set best' \<subseteq> set (sort_best best)"
  proof (cases "int (length (sort_best best)) > maxBestCreatures")
    case True
    then have "truncate_loop (int (length (sort_best best)) - 1) (sort_best best)
        = Inr (take (nat maxCreatures + 1) (sort_best best))"
      by (intro truncate_loop_eq) (simp_all add: maxCreatures_eq)
    then have "best' = take (nat maxCreatures + 1) (sort_best best)"
      using t True by (simp add: truncate_best_def)
    then show ?thesis by (auto dest: in_set_takeD)
  next
    case False
    then show ?thesis using t by (simp add: truncate_best_def)
  qed
  ultimately have "list_all P best'" by (auto simp: list_all_iff)
  then show ?thesis using assms(1) by (simp add: s' heap_fresh_def P_def)
qed

lemma shuffleCreatures_heap_fresh:
  assumes "heap_fresh s" "shuffleCreatures s = Inr s'"
  shows "heap_fresh s'"
proof -
  define C where "C = creatures s'"
  define E where "E = env s'"
  have s': "s' = s\<lparr>creatures := C, env := E\<rparr>"
    using shuffleCreatures_frame(1) [OF assms(2)] unfolding C_def E_def .
  have e: "env_same (env s) E" using shuffleCreatures_env [OF assms(2)] by (simp add: E_def)
  have m: "mset C = mset (creatures s)" using shuffleCreatures_mset [OF assms(2)] by (simp add: C_def)
  show ?thesis
  proof (rule heap_fresh_transfer [OF assms(1)])
    have "mset (creatures s' @ creaturePool s') = mset (creatures s @ creaturePool s)"
      using m by (simp add: s')
    then show "mset (map (\<lambda>c. allWeights (brain c)) (creatures s' @ creaturePool s'))
         = mset (map (\<lambda>c. allWeights (brain c)) (creatures s @ creaturePool s))"
      by (metis mset_map)
    show "heap (env s') = heap (env s)" "hnext (env s') = hnext (env s)"
      using e by (simp_all add: s' env_same_def)
    show "list_all (\<lambda>t. arr (t_weights t) < hnext (env s)) (bestCreatures s')"
      using assms(1) by (simp add: s' heap_fresh_def)
  qed
qed

lemma SpawnRandomCreature_heap_fresh:
  assumes "sim_ok s" "heap_fresh s" "SpawnRandomCreature s = Inr s'"
  shows "heap_fresh s'"
proof -
  obtain s2 where "for_loop 0 1 (\<lambda>i. SpawnRandomCreature) s = Inr (max 0 1, s2)" "heap_fresh s2"
    using random_loop [OF assms(1,2), of 0 1] by blast
  moreover have "for_loop 0 1 (\<lambda>i. SpawnRandomCreature) s = Inr (1, s')"
    by (subst for_loop_step) (simp_all add: assms(3))
  ultimately show ?thesis by simp
qed

lemma SpawnCreatures_heap_fresh:
  assumes "sim_ok s" "heap_fresh s" "0 \<le> n" "SpawnCreatures n s = Inr s'"
  shows "heap_fresh s'"
proof (cases "bestCreatures s = []")
  case True
  obtain s2 where "for_loop 0 n (\<lambda>i. SpawnRandomCreature) s = Inr (max 0 n, s2)" "heap_fresh s2"
    using random_loop [OF assms(1,2), of 0 n] by blast
  then show ?thesis using True assms(4) by (simp add: SpawnCreatures_def)
next
  case False
  define k where "k = max 1 (n div 2)"
  define lw where "lw = len (t_weights (bestCreatures s ! 0))"
  have lw: "numWeights \<le> lw"
    using assms(1) False by (cases "bestCreatures s") (auto simp: sim_ok_def lw_def)
  obtain s1 where s1: "for_loop 0 k (spawn_clone (length (bestCreatures s)) lw) s = Inr (max 0 k, s1)"
    "spawned (nat k) s s1" "heap_fresh s1"
    using clone_loop [OF assms(1,2) False lw, of k] by blast
  have ok1: "sim_ok s1" using assms(1) s1(2) spawned_sim_ok by blast
  obtain s2 where s2: "for_loop k n (\<lambda>i. SpawnRandomCreature) s1 = Inr (max k n, s2)"
    "heap_fresh s2"
    using random_loop [OF ok1 s1(3), of k n] by blast
  have "idx (bestCreatures s) 0 = Inr (bestCreatures s ! 0)" using False by simp
  then have "SpawnCreatures n s
        = rbind (for_loop 0 k (spawn_clone (length (bestCreatures s)) lw) s) (\<lambda>(i, s).
          rbind (for_loop k n (\<lambda>i. SpawnRandomCreature) s) (\<lambda>(i, s). Inr s))"
    unfolding SpawnCreatures_hall [OF False assms(3)] SpawnCreatures_clones_then_random_def
      k_def lw_def by simp
  then have "SpawnCreatures n s = Inr s2" by (simp add: s1(1) s2(1))
  then show ?thesis using assms(4) s2(2) by simp
qed

lemma tick_prepare_heap_fresh:
  assumes "sim_ok s" "heap_fresh s" "tick_prepare D s = Inr s1"
  shows "heap_fresh s1"
proof -
  obtain sB sC sD where sB: "tick_obstacles (tick_draw_arena D s) = Inr sB"
    and sC: "tick_evolution (tick_draw_obstacles D sB) = Inr sC"
    and sD: "tick_floor sC = Inr sD"
    and s1: "shuffleCreatures sD = Inr s1"
    using assms(3) unfolding tick_prepare_def rbind_eq_Inr by blast
  define Ob where "Ob = obstacles sB"
  define Eb where "Eb = env sB"
  have fB: "sB = (tick_draw_arena D s)\<lparr>obstacles := Ob, env := Eb\<rparr>"
    using tick_obstacles_frame [OF sB] unfolding Ob_def Eb_def .
  have eB: "env_same (env s) Eb"
    using tick_obstacles_env [OF sB] by (simp add: Eb_def tick_draw_arena_def)
  have okB: "sim_ok (tick_draw_obstacles D sB)"
    unfolding tick_draw_obstacles_def by (subst fB) (simp add: tick_draw_arena_def assms(1))
  have "heap_fresh (s\<lparr>env := Eb\<rparr>)" using heap_fresh_env [OF eB] assms(2) by simp
  then have hB: "heap_fresh (tick_draw_obstacles D sB)"
    unfolding tick_draw_obstacles_def by (subst fB) (simp add: tick_draw_arena_def heap_fresh_def)
  obtain k where k: "spawned k (tick_draw_obstacles D sB) sC"
    using tick_evolution_spawned [OF okB] sC by auto
  have okC: "sim_ok sC" using spawned_sim_ok(1) [OF okB k] .
  have hC: "heap_fresh sC"
  proof (cases "go_mod (tickCounter (tick_draw_obstacles D sB)) evolutionCycleTicks = 0 \<and>
                int (length (creatures (tick_draw_obstacles D sB))) < maxCreatures")
    case True
    then have r: "SpawnCreatures (maxCreatures - int (length (creatures (tick_draw_obstacles D sB))))
                 (tick_draw_obstacles D sB) = Inr sC"
      using sC by (simp add: tick_evolution_def)
    have n0: "0 \<le> maxCreatures - int (length (creatures (tick_draw_obstacles D sB)))"
      using True by simp
    show ?thesis by (rule SpawnCreatures_heap_fresh [OF okB hB n0 r])
  next
    case False
    then have "sC = tick_draw_obstacles D sB"
      using sC by (auto simp: tick_evolution_def split: if_splits)
    then show ?thesis using hB by simp
  qed
  obtain k' where k': "spawned k' sC sD"
    using tick_floor_spawned [OF okC] sD by auto
  have hD: "heap_fresh sD"
  proof (cases "int (length (creatures sC)) < minCreatures")
    case True
    then have r: "SpawnCreatures (minCreatures - int (length (creatures sC))) sC = Inr sD"
      using sD by (simp add: tick_floor_def)
    have n0: "0 \<le> minCreatures - int (length (creatures sC))"
      using True by simp
    show ?thesis by (rule SpawnCreatures_heap_fresh [OF okC hC n0 r])
  next
    case False
    then have "sD = sC" using sD by (auto simp: tick_floor_def split: if_splits)
    then show ?thesis using hC by simp
  qed
  show ?thesis using hD s1 by (rule shuffleCreatures_heap_fresh)
qed

lemma DoTick_heap_fresh:
  assumes "sim_ok s" "heap_fresh s" "DoTick D s = Inr s'"
  shows "heap_fresh s'"
proof -
  obtain s1 s2 s3 where a: "tick_prepare D s = Inr s1" "action_pass (death_pass s1) = Inr s2"
    "update_top s2 = Inr s3" "s' = (tick_draw_creatures D s3)\<lparr>tickCounter := tickCounter s3 + 1\<rparr>"
    using assms(3) unfolding DoTick_def rbind_eq_Inr by auto
  have ok1: "sim_ok s1" using tick_prepare_sim_ok [OF assms(1) a(1)] .
  have h1: "heap_fresh s1" using tick_prepare_heap_fresh [OF assms(1,2) a(1)] .
  have okd: "sim_ok (death_pass s1)" using ok1 unfolding death_pass_def by (rule death_loop_sim_ok)
  have hd: "heap_fresh (death_pass s1)" using h1 unfolding death_pass_def by (rule death_loop_heap_fresh)
  have "heap_fresh s2" using action_pass_heap_fresh [OF okd hd a(2)] .
  then have "heap_fresh s3" using a(3) by (rule update_top_heap_fresh)
  then show ?thesis by (simp add: a(4) tick_draw_creatures_def)
qed

lemma reachable_heap_fresh: "reachable D s \<Longrightarrow> heap_fresh s"
proof (induction rule: reachable.induct)
  case (start e)
  show ?case by (simp add: heap_fresh_def NewSim_def)
next
  case (paint s s')
  then show ?case using DoTick_heap_fresh reachable_sim_ok by blast
next
  case (touch s s')
  then show ?case using SpawnRandomCreature_heap_fresh reachable_sim_ok by blast
qed

end
